theory Spec2Isabelle
  imports Complex_Main "HOL-Library.Multiset" "HOL-Library.Log_Nat"
begin

section \<open>Data model\<close>

text \<open>
  The plugin is TypeScript. A value of type \<open>number\<close> is a double, modelled by the real
  number it denotes; an optional field \<open>f?: number\<close> is a \<open>number option\<close> with \<open>None\<close> for
  \<open>undefined\<close>. A string is the list of its UTF-16 code units, each a natural number, so
  that \<open>charCodeAt\<close> is list indexing (a JavaScript code unit is below 65536; nothing
  below depends on that bound). The three session-size settings are slider values and
  are natural numbers.
\<close>

type_synonym number = real
type_synonym jsstring = "nat list"

section \<open>Double arithmetic\<close>

text \<open>
  Every arithmetic operation of the program, and every decimal literal in it, yields the
  double nearest to the exact result, a tie going to the even significand. \<open>binade x\<close>
  is the exponent \<open>e\<close> with \<open>2 ^ e \<le> \<bar>x\<bar> < 2 ^ (e + 1)\<close>, and \<open>toDouble x\<close> rounds \<open>x\<close> to
  the nearest multiple of \<open>2 ^ (e - 52)\<close>, that is to 53 significant bits. The exponent is
  not bounded here: overflow to \<open>Infinity\<close>, subnormal numbers and \<open>NaN\<close> are not modelled
  (they need magnitudes beyond \<open>10 ^ 308\<close>, below \<open>10 ^ -308\<close>, or a \<open>NaN\<close> in the stored data).
\<close>

definition binade :: "real \<Rightarrow> int" where
  "binade x =
     (if 1 \<le> \<bar>x\<bar> then int (floorlog 2 (nat \<lfloor>\<bar>x\<bar>\<rfloor>)) - 1
      else - int (floorlog 2 (nat (\<lceil>1 / \<bar>x\<bar>\<rceil> - 1))))"

definition roundTiesToEven :: "real \<Rightarrow> int" where
  "roundTiesToEven y =
     (let n = \<lfloor>y\<rfloor>
      in if y - of_int n < 1 / 2 then n
         else if 1 / 2 < y - of_int n then n + 1
         else if even n then n else n + 1)"

definition toDouble :: "real \<Rightarrow> number" where
  "toDouble x =
     (if x = 0 then 0
      else of_int (roundTiesToEven (x / 2 powi (binade x - 52))) * 2 powi (binade x - 52))"

text \<open>
  The operators \<open>+\<close>, \<open>-\<close> and \<open>*\<close> on numbers. The operands are doubles; a real that is
  not a double, such as the decimal 0.7 of a setting, is read as the double nearest to it,
  as the program reads it from its data. On doubles \<open>toDouble\<close> changes nothing.
\<close>

definition jsAdd :: "number \<Rightarrow> number \<Rightarrow> number" where
  "jsAdd x y = toDouble (toDouble x + toDouble y)"

definition jsSub :: "number \<Rightarrow> number \<Rightarrow> number" where
  "jsSub x y = toDouble (toDouble x - toDouble y)"

definition jsMul :: "number \<Rightarrow> number \<Rightarrow> number" where
  "jsMul x y = toDouble (toDouble x * toDouble y)"

text \<open>
  \<open>Math.round\<close>: the nearest integer, a tie going up. The result is an integer, which is
  a double whenever the argument is one.
\<close>

definition Math_round :: "number \<Rightarrow> number" where
  "Math_round x = of_int \<lfloor>x + 1 / 2\<rfloor>"

section \<open>Cards, store and settings\<close>

record AnkiCard =
  id' :: jsstring
  front :: jsstring
  "back" :: jsstring
  sourceFile :: jsstring
  position :: nat
  lastReviewed :: "number option"
  nextReview :: "number option"
  easeFactor :: "number option"
  interval :: "number option"
  reviewCount :: "number option"

record AnkiData =
  timestamp :: jsstring
  totalCards :: nat
  cards :: "AnkiCard list"

record AnkiPluginSettings =
  cardsPerSession :: nat
  newCardsPerDay :: nat
  reviewsPerDay :: nat
  showSourceFile :: bool
  enableMarkdownRendering :: bool
  easyBonus :: number
  intervalModifier :: number
  maxInterval :: number
  darkModeButtons :: bool
  enableAutomaticIndexing :: bool

definition DEFAULT_SETTINGS :: AnkiPluginSettings where
  "DEFAULT_SETTINGS =
     \<lparr>cardsPerSession = 5, newCardsPerDay = 10, reviewsPerDay = 50,
      showSourceFile = True, enableMarkdownRendering = True,
      easyBonus = toDouble 1.3, intervalModifier = 1.0, maxInterval = 365,
      darkModeButtons = True, enableAutomaticIndexing = True\<rparr>"

section \<open>The scheduler\<close>

text \<open>
  \<open>!x\<close> on an optional number holds when the field is \<open>undefined\<close> or \<open>0\<close>.
  \<open>orDefault x d\<close> is the value of \<open>x\<close> after \<open>if (!x) x = d\<close>.
\<close>

fun falsy :: "number option \<Rightarrow> bool" where
  "falsy None = True"
| "falsy (Some x) = (x = 0)"

fun orDefault :: "number option \<Rightarrow> number \<Rightarrow> number" where
  "orDefault None d = d"
| "orDefault (Some x) d = (if x = 0 then d else x)"

text \<open>The products of \<open>24 * 60 * 60 * 1000\<close> are integers and exact.\<close>

definition millisecondsPerDay :: number where
  "millisecondsPerDay = 24 * 60 * 60 * 1000"

text \<open>
  The ease update of \<open>calculateNextReview\<close>: the first \<open>switch\<close>, which has no default
  branch, so that a rating other than 1, 2, 3 leaves the ease factor as it is. The
  literals 1.3 and 0.15 are the doubles nearest to them; 2.5 is a double.
\<close>

definition updateEase :: "AnkiPluginSettings \<Rightarrow> number \<Rightarrow> number \<Rightarrow> number" where
  "updateEase settings ef difficultyRating =
     (if difficultyRating = 1 then max (toDouble 1.3) (jsSub ef (toDouble 0.15))
      else if difficultyRating = 2 then ef
      else if difficultyRating = 3
        then min 2.5 (jsAdd ef (jsMul (toDouble 0.15) (easyBonus settings)))
      else ef)"

text \<open>
  The interval update: the fixed first-review intervals when the interval is \<open>0\<close>
  (again a \<open>switch\<close> with no default branch), the product, which is two double
  multiplications from the left, rounded to an integer and capped otherwise.
  \<open>ef\<close> is the ease factor after the ease update.
\<close>

definition updateInterval :: "AnkiPluginSettings \<Rightarrow> number \<Rightarrow> number \<Rightarrow> number \<Rightarrow> number" where
  "updateInterval settings iv ef difficultyRating =
     (if iv = 0 then
        (if difficultyRating = 1 then 1
         else if difficultyRating = 2 then 3
         else if difficultyRating = 3 then 7
         else iv)
      else min (Math_round (jsMul (jsMul iv ef) (intervalModifier settings)))
             (maxInterval settings))"

text \<open>
  \<open>calculateNextReview\<close> mutates the card and returns it; the model returns the updated
  record. \<open>now\<close> is the value of \<open>Date.now()\<close>.
\<close>

definition calculateNextReview ::
  "AnkiPluginSettings \<Rightarrow> number \<Rightarrow> AnkiCard \<Rightarrow> number \<Rightarrow> AnkiCard" where
  "calculateNextReview settings now c difficultyRating =
     (let ef0 = orDefault (easeFactor c) 2.5;
          iv0 = orDefault (interval c) 0;
          rc0 = orDefault (reviewCount c) 0;
          ef1 = updateEase settings ef0 difficultyRating;
          iv1 = updateInterval settings iv0 ef1 difficultyRating
      in c\<lparr>lastReviewed := Some now,
              nextReview := Some (jsAdd now (jsMul iv1 millisecondsPerDay)),
              easeFactor := Some ef1,
              interval := Some iv1,
              reviewCount := Some (jsAdd rc0 1)\<rparr>)"

text \<open>
  A sequence of scheduler calls on one card: each call has its own time and rating.
\<close>

fun reviewAll :: "AnkiPluginSettings \<Rightarrow> AnkiCard \<Rightarrow> (number \<times> number) list \<Rightarrow> AnkiCard" where
  "reviewAll settings c [] = c"
| "reviewAll settings c ((now, r) # calls) =
     reviewAll settings (calculateNextReview settings now c r) calls"

text \<open>
  The range of the ease factor that the scheduler keeps: from the double of 1.3, which is
  not below 1.3, to 2.5.
\<close>

definition easeInRange :: "AnkiCard \<Rightarrow> bool" where
  "easeInRange c =
     (case easeFactor c of None \<Rightarrow> False | Some ef \<Rightarrow> toDouble 1.3 \<le> ef \<and> ef \<le> 2.5)"

section \<open>Strings\<close>

text \<open>
  \<open>js\<close> turns an ASCII literal into the list of its code units. The code units used by
  the parser: 10 is the line feed, 63 the question mark, 96 the backtick, 124 the bar.
\<close>

definition js :: "string \<Rightarrow> jsstring" where
  "js s = map of_char s"

definition startsWith :: "jsstring \<Rightarrow> jsstring \<Rightarrow> bool" where
  "startsWith s pat = (take (length pat) s = pat)"

text \<open>The index of the first occurrence of \<open>pat\<close> in \<open>s\<close>, if there is one.\<close>

fun indexOf :: "jsstring \<Rightarrow> jsstring \<Rightarrow> nat option" where
  "indexOf [] pat = (if pat = [] then Some 0 else None)"
| "indexOf (c # cs) pat =
     (if startsWith (c # cs) pat then Some 0 else map_option Suc (indexOf cs pat))"

text \<open>
  \<open>String.prototype.trim\<close> removes the white space and line terminator code units of
  ECMAScript from both ends.
\<close>

definition isWhiteSpace :: "nat \<Rightarrow> bool" where
  "isWhiteSpace c =
     (c \<in> {9, 10, 11, 12, 13, 32, 160, 5760, 8232, 8233, 8239, 8287, 12288, 65279}
      \<or> (8192 \<le> c \<and> c \<le> 8202))"

definition trim :: "jsstring \<Rightarrow> jsstring" where
  "trim s = rev (dropWhile isWhiteSpace (rev (dropWhile isWhiteSpace s)))"

section \<open>The identity hasher\<close>

text \<open>
  \<open>hash << 5\<close> and \<open>hash & hash\<close> convert to a signed 32-bit integer; the subtraction and
  the addition between them are exact. \<open>toString36\<close> is \<open>Number.prototype.toString(36)\<close>
  on a non-negative integer: digits \<open>0\<close> to \<open>9\<close>, then \<open>a\<close> to \<open>z\<close>.
\<close>

definition toInt32 :: "int \<Rightarrow> int" where
  "toInt32 x = (x + 2 ^ 31) mod 2 ^ 32 - 2 ^ 31"

definition hashStep :: "int \<Rightarrow> nat \<Rightarrow> int" where
  "hashStep hash char = toInt32 ((toInt32 (hash * 2 ^ 5) - hash) + int char)"

definition digit36 :: "nat \<Rightarrow> nat" where
  "digit36 d = (if d < 10 then 48 + d else 87 + d)"

fun toString36 :: "nat \<Rightarrow> jsstring" where
  "toString36 n =
     (if n < 36 then [digit36 n] else toString36 (n div 36) @ [digit36 (n mod 36)])"

declare toString36.simps [simp del]

definition generateCardId :: "jsstring \<Rightarrow> jsstring \<Rightarrow> jsstring \<Rightarrow> jsstring" where
  "generateCardId front' back' sourceFile' =
     (let contentString = front' @ [124] @ back' @ [124] @ sourceFile';
          hash = foldl hashStep 0 contentString
      in js ''card_'' @ toString36 (nat \<bar>hash\<bar>))"

section \<open>The card parser\<close>

definition fenceOpen :: jsstring where
  "fenceOpen = js ''```anki'' @ [10]"

definition fenceClose :: jsstring where
  "fenceClose = 10 # js ''```''"

definition qaSeparator :: jsstring where
  "qaSeparator = [10, 63, 10]"

text \<open>
  One \<open>exec\<close> of the block expression, a backtick fence tagged \<open>anki\<close>, a lazy body and
  the closing fence on a line of its own, from \<open>lastIndex\<close>: the match starts at the first
  opening fence and its body ends at the first closing fence after that. The result is the
  body (\<open>match[1]\<close>), \<open>match.index\<close> and the new \<open>lastIndex\<close>; \<open>None\<close> is \<open>null\<close>.
\<close>

definition ankiBlockRegex_exec :: "jsstring \<Rightarrow> nat \<Rightarrow> (jsstring \<times> nat \<times> nat) option" where
  "ankiBlockRegex_exec content lastIndex =
     (case indexOf (drop lastIndex content) fenceOpen of
        None \<Rightarrow> None
      | Some i \<Rightarrow>
          (let index = lastIndex + i; start = index + length fenceOpen
           in case indexOf (drop start content) fenceClose of
                None \<Rightarrow> None
              | Some j \<Rightarrow>
                  Some (take j (drop start content), index, start + j + length fenceClose)))"

text \<open>
  The split of a block into card texts: at a blank line (two line feeds) that is followed
  by at least one code unit and, somewhere after it, a separator line. \<open>cur\<close> is the piece
  since the last split.
\<close>

definition cardSeparatorAhead :: "jsstring \<Rightarrow> bool" where
  "cardSeparatorAhead rest = (indexOf (drop 1 rest) qaSeparator \<noteq> None)"

fun splitCardsFrom :: "jsstring \<Rightarrow> jsstring \<Rightarrow> jsstring list" where
  "splitCardsFrom cur (c # d # rest) =
     (if c = 10 \<and> d = 10 \<and> cardSeparatorAhead rest then cur # splitCardsFrom [] rest
      else splitCardsFrom (cur @ [c]) (d # rest))"
| "splitCardsFrom cur [c] = [cur @ [c]]"
| "splitCardsFrom cur [] = [cur]"

definition splitCards :: "jsstring \<Rightarrow> jsstring list" where
  "splitCards blockContent = splitCardsFrom [] blockContent"

text \<open>The split of a card text at every line that holds only the question mark.\<close>

fun splitPartsFrom :: "jsstring \<Rightarrow> jsstring \<Rightarrow> jsstring list" where
  "splitPartsFrom cur (a # b # c # rest) =
     (if a = 10 \<and> b = 63 \<and> c = 10 then cur # splitPartsFrom [] rest
      else splitPartsFrom (cur @ [a]) (b # c # rest))"
| "splitPartsFrom cur [a, b] = [cur @ [a, b]]"
| "splitPartsFrom cur [a] = [cur @ [a]]"
| "splitPartsFrom cur [] = [cur]"

definition splitParts :: "jsstring \<Rightarrow> jsstring list" where
  "splitParts cardContent = splitPartsFrom [] cardContent"

text \<open>The card that the parser pushes: no scheduling field is set.\<close>

definition newCard :: "jsstring \<Rightarrow> nat \<Rightarrow> jsstring \<Rightarrow> jsstring \<Rightarrow> AnkiCard" where
  "newCard fileName pos part0 part1 =
     \<lparr>id' = generateCardId (trim part0) (trim part1) fileName,
      front = trim part0, back = trim part1, sourceFile = fileName, position = pos,
      lastReviewed = None, nextReview = None, easeFactor = None,
      interval = None, reviewCount = None\<rparr>"

text \<open>The inner loop, over the card texts of one block.\<close>

fun cardLoop :: "jsstring \<Rightarrow> nat \<Rightarrow> jsstring list \<Rightarrow> AnkiCard list \<Rightarrow> AnkiCard list" where
  "cardLoop fileName pos [] cards' = cards'"
| "cardLoop fileName pos (cardContent # cardContents) cards' =
     (let parts = splitParts cardContent
      in cardLoop fileName pos cardContents
           (if length parts = 2 then cards' @ [newCard fileName pos (parts ! 0) (parts ! 1)]
            else cards'))"

lemma indexOf_bound: "indexOf s pat = Some i \<Longrightarrow> i + length pat \<le> length s"
proof (induction s arbitrary: i)
  case Nil
  then show ?case by (simp split: if_splits)
next
  case (Cons c cs)
  show ?case
  proof (cases "startsWith (c # cs) pat")
    case True
    then have "length (take (length pat) (c # cs)) = length pat"
      unfolding startsWith_def by simp
    then have "length pat \<le> length (c # cs)"
      by simp
    with True Cons.prems show ?thesis by simp
  next
    case False
    with Cons.prems obtain k where "indexOf cs pat = Some k" and "i = Suc k"
      by auto
    with Cons.IH show ?thesis by simp
  qed
qed

lemma ankiBlockRegex_exec_advances:
  assumes "ankiBlockRegex_exec content lastIndex = Some (blockContent, index, lastIndex')"
  shows "lastIndex < lastIndex' \<and> lastIndex' \<le> length content"
proof -
  from assms obtain i j where i: "indexOf (drop lastIndex content) fenceOpen = Some i"
    and j: "indexOf (drop (lastIndex + i + length fenceOpen) content) fenceClose = Some j"
    and l: "lastIndex' = lastIndex + i + length fenceOpen + j + length fenceClose"
    by (auto simp: ankiBlockRegex_exec_def Let_def split: option.splits)
  have "j + length fenceClose \<le> length (drop (lastIndex + i + length fenceOpen) content)"
    using j by (rule indexOf_bound)
  moreover have "length fenceClose = 4" by (simp add: fenceClose_def js_def)
  ultimately show ?thesis using l by simp
qed

text \<open>The outer loop, over the matches of the block expression.\<close>

function ankiBlockLoop :: "jsstring \<Rightarrow> jsstring \<Rightarrow> nat \<Rightarrow> AnkiCard list \<Rightarrow> AnkiCard list" where
  "ankiBlockLoop content fileName lastIndex cards' =
     (case ankiBlockRegex_exec content lastIndex of
        None \<Rightarrow> cards'
      | Some (blockContent, pos, lastIndex') \<Rightarrow>
          ankiBlockLoop content fileName lastIndex'
            (cardLoop fileName pos (splitCards blockContent) cards'))"
  by pat_completeness auto
termination
proof (relation "measure (\<lambda>(content, fileName, lastIndex, cards'). length content - lastIndex)")
  show "wf (measure (\<lambda>(content, fileName, lastIndex, cards'). length content - lastIndex))"
    by simp
next
  fix content fileName :: jsstring and lastIndex :: nat and cards' :: "AnkiCard list"
    and x2 blockContent y pos lastIndex'
  assume "ankiBlockRegex_exec content lastIndex = Some x2"
    and "(blockContent, y) = x2" and "(pos, lastIndex') = y"
  then have "ankiBlockRegex_exec content lastIndex = Some (blockContent, pos, lastIndex')"
    by simp
  from ankiBlockRegex_exec_advances [OF this]
  show "((content, fileName, lastIndex',
          cardLoop fileName pos (splitCards blockContent) cards'),
         content, fileName, lastIndex, cards')
        \<in> measure (\<lambda>(content, fileName, lastIndex, cards'). length content - lastIndex)"
    by auto
qed

declare ankiBlockLoop.simps [simp del]

definition findAnkiCardsInContent :: "jsstring \<Rightarrow> jsstring \<Rightarrow> AnkiCard list" where
  "findAnkiCardsInContent content fileName = ankiBlockLoop content fileName 0 []"

section \<open>The plugin state and persistence\<close>

text \<open>
  \<open>storedCards\<close> is the \<open>cards\<close> entry of the plugin's data on disk, \<open>cardData\<close> the
  in-memory copy \<open>this.cardData\<close>, with \<open>None\<close> for \<open>null\<close>; \<open>saveCount\<close> counts the calls
  of \<open>saveCardData\<close>. Reading and writing the data is the host's work and is taken to
  succeed.
\<close>

record AnkiPlugin =
  storedCards :: "AnkiData option"
  cardData :: "AnkiData option"
  saveCount :: nat

definition loadCardData :: "AnkiPlugin \<Rightarrow> AnkiPlugin" where
  "loadCardData plugin = plugin\<lparr>cardData := storedCards plugin\<rparr>"

definition saveCardData :: "AnkiData \<Rightarrow> AnkiPlugin \<Rightarrow> AnkiPlugin" where
  "saveCardData d plugin =
     plugin\<lparr>storedCards := Some d, cardData := Some d, saveCount := saveCount plugin + 1\<rparr>"

text \<open>\<open>isoNow\<close> is the value of \<open>new Date().toISOString()\<close>.\<close>

definition saveCardsToJson :: "jsstring \<Rightarrow> AnkiCard list \<Rightarrow> AnkiPlugin \<Rightarrow> AnkiPlugin" where
  "saveCardsToJson isoNow cards' plugin =
     saveCardData \<lparr>timestamp = isoNow, totalCards = length cards', cards = cards'\<rparr> plugin"

section \<open>The card store merger\<close>

text \<open>
  The lookup \<open>existingCards\<close> is filled by assignment in store order, so a later card
  replaces an earlier one with the same id.
\<close>

definition buildExistingCards :: "AnkiCard list \<Rightarrow> (jsstring \<rightharpoonup> AnkiCard)" where
  "buildExistingCards cards' = foldl (\<lambda>existingCards c. existingCards(id' c \<mapsto> c)) Map.empty cards'"

definition mergeCard :: "(jsstring \<rightharpoonup> AnkiCard) \<Rightarrow> AnkiCard \<Rightarrow> AnkiCard" where
  "mergeCard existingCards c =
     (case existingCards (id' c) of
        Some existingCard \<Rightarrow>
          c\<lparr>lastReviewed := lastReviewed existingCard,
            nextReview := nextReview existingCard,
            easeFactor := easeFactor existingCard,
            interval := interval existingCard,
            reviewCount := reviewCount existingCard\<rparr>
      | None \<Rightarrow> c\<lparr>easeFactor := Some 2.5, interval := Some 0, reviewCount := Some 0\<rparr>)"

text \<open>The \<open>forEach\<close> over the cards of one file.\<close>

definition mergeCards :: "(jsstring \<rightharpoonup> AnkiCard) \<Rightarrow> AnkiCard list \<Rightarrow> AnkiCard list" where
  "mergeCards existingCards cardsInFile = map (mergeCard existingCards) cardsInFile"

text \<open>
  The loop over the markdown files. A file is its \<open>basename\<close> and what \<open>vault.read\<close>
  returns, \<open>None\<close> when the read throws: the error is caught and the file skipped.
\<close>

fun fileLoop ::
  "(jsstring \<rightharpoonup> AnkiCard) \<Rightarrow> (jsstring \<times> jsstring option) list \<Rightarrow> AnkiCard list \<Rightarrow> AnkiCard list"
  where
  "fileLoop existingCards [] allCards = allCards"
| "fileLoop existingCards ((basename, None) # files) allCards =
     fileLoop existingCards files allCards"
| "fileLoop existingCards ((basename, Some content) # files) allCards =
     (let cardsInFile = findAnkiCardsInContent content basename
      in fileLoop existingCards files
           (if length cardsInFile > 0 then allCards @ mergeCards existingCards cardsInFile
            else allCards))"

definition indexAnkiCards ::
  "jsstring \<Rightarrow> (jsstring \<times> jsstring option) list \<Rightarrow> AnkiPlugin \<Rightarrow> AnkiPlugin" where
  "indexAnkiCards isoNow files plugin =
     (let plugin1 = loadCardData plugin;
          existingCards =
            (case cardData plugin1 of
               None \<Rightarrow> Map.empty
             | Some d \<Rightarrow> buildExistingCards (cards d));
          allCards = fileLoop existingCards files []
      in if length allCards > 0 then saveCardsToJson isoNow allCards plugin1 else plugin1)"

section \<open>Writing a review back\<close>

text \<open>\<open>findIndex\<close>, with \<open>None\<close> for \<open>-1\<close>.\<close>

fun findIndex :: "('a \<Rightarrow> bool) \<Rightarrow> 'a list \<Rightarrow> nat option" where
  "findIndex p [] = None"
| "findIndex p (x # xs) = (if p x then Some 0 else map_option Suc (findIndex p xs))"

text \<open>
  \<open>updateCardAfterReview\<close> mutates the reviewed card and the plugin; the model returns
  both.
\<close>

definition updateCardAfterReview ::
  "AnkiPluginSettings \<Rightarrow> number \<Rightarrow> AnkiCard \<Rightarrow> number \<Rightarrow> AnkiPlugin \<Rightarrow> AnkiCard \<times> AnkiPlugin"
  where
  "updateCardAfterReview settings now c difficultyRating plugin =
     (let c1 = calculateNextReview settings now c difficultyRating;
          plugin1 = loadCardData plugin
      in case cardData plugin1 of
           None \<Rightarrow> (c1, plugin1)
         | Some d \<Rightarrow>
             (case findIndex (\<lambda>x. id' x = id' c1) (cards d) of
                None \<Rightarrow> (c1, plugin1)
              | Some cardIndex \<Rightarrow>
                  (c1, saveCardData (d\<lparr>cards := (cards d)[cardIndex := c1]\<rparr>) plugin1)))"

section \<open>The review selector\<close>

text \<open>
  \<open>getRandomSubset\<close> copies the array, sorts the copy with a comparator that answers at
  random, and takes the first \<open>size\<close> elements. The sorted copy is the argument
  \<open>sortRandomly\<close> applied to the array: which rearrangement comes out is not the plugin's
  choice, and the properties below hold for every function that rearranges.
\<close>

definition getRandomSubset :: "('a list \<Rightarrow> 'a list) \<Rightarrow> 'a list \<Rightarrow> nat \<Rightarrow> 'a list" where
  "getRandomSubset sortRandomly array size' = take size' (sortRandomly array)"

definition isDue :: "number \<Rightarrow> AnkiCard \<Rightarrow> bool" where
  "isDue now c = (case nextReview c of None \<Rightarrow> True | Some t \<Rightarrow> t = 0 \<or> t \<le> now)"

definition neverReviewed :: "AnkiCard \<Rightarrow> bool" where
  "neverReviewed c = falsy (lastReviewed c)"

text \<open>The pool \<open>dueCards\<close> before the random draw.\<close>

definition dueCards :: "AnkiPluginSettings \<Rightarrow> number \<Rightarrow> AnkiCard list \<Rightarrow> AnkiCard list" where
  "dueCards settings now cards' =
     (let due = filter (isDue now) cards'
      in if length due = 0 then take (newCardsPerDay settings) (filter neverReviewed cards')
         else take (reviewsPerDay settings) due)"

text \<open>
  What \<open>reviewCards\<close> ends with: the notice that nothing is indexed, the modal that
  offers a forced review, or the review modal with the chosen cards.
\<close>

datatype ReviewOutcome =
  NoIndexedCards
| NoCardsModal
| CardReviewModal "AnkiCard list"

definition reviewCards ::
  "(AnkiCard list \<Rightarrow> AnkiCard list) \<Rightarrow> AnkiPluginSettings \<Rightarrow> number \<Rightarrow> AnkiPlugin
     \<Rightarrow> ReviewOutcome \<times> AnkiPlugin" where
  "reviewCards sortRandomly settings now plugin =
     (let plugin1 = loadCardData plugin
      in case cardData plugin1 of
           None \<Rightarrow> (NoIndexedCards, plugin1)
         | Some d \<Rightarrow>
             if length (cards d) = 0 then (NoIndexedCards, plugin1)
             else
               (let pool = dueCards settings now (cards d)
                in if length pool = 0 then (NoCardsModal, plugin1)
                   else
                     (let reviewSize = min (cardsPerSession settings) (length pool)
                      in (CardReviewModal (getRandomSubset sortRandomly pool reviewSize),
                          plugin1))))"

text \<open>
  The cards that \<open>reviewCards\<close> presents for review: those of the review modal, and none
  when it ends with the notice or with the no-cards modal.
\<close>

fun presentedCards :: "ReviewOutcome \<Rightarrow> AnkiCard list" where
  "presentedCards NoIndexedCards = []"
| "presentedCards NoCardsModal = []"
| "presentedCards (CardReviewModal cardsToReview) = cardsToReview"

text \<open>The persisted card list: empty when nothing is stored.\<close>

definition storedCardList :: "AnkiPlugin \<Rightarrow> AnkiCard list" where
  "storedCardList plugin = (case storedCards plugin of None \<Rightarrow> [] | Some d \<Rightarrow> cards d)"

section \<open>Notions used in the properties\<close>

text \<open>
  The fenced anki blocks of a document, from \<open>lastIndex\<close> on: the body and the start
  offset of every match of the block expression, in order.
\<close>

function ankiBlocks :: "jsstring \<Rightarrow> nat \<Rightarrow> (jsstring \<times> nat) list" where
  "ankiBlocks content lastIndex =
     (case ankiBlockRegex_exec content lastIndex of
        None \<Rightarrow> []
      | Some (blockContent, pos, lastIndex') \<Rightarrow>
          (blockContent, pos) # ankiBlocks content lastIndex')"
  by pat_completeness auto
termination
proof (relation "measure (\<lambda>(content, lastIndex). length content - lastIndex)")
  show "wf (measure (\<lambda>(content, lastIndex). length content - lastIndex))"
    by simp
next
  fix content :: jsstring and lastIndex :: nat and x2 blockContent y pos lastIndex'
  assume "ankiBlockRegex_exec content lastIndex = Some x2"
    and "(blockContent, y) = x2" and "(pos, lastIndex') = y"
  then have "ankiBlockRegex_exec content lastIndex = Some (blockContent, pos, lastIndex')"
    by simp
  from ankiBlockRegex_exec_advances [OF this]
  show "((content, lastIndex'), content, lastIndex)
        \<in> measure (\<lambda>(content, lastIndex). length content - lastIndex)"
    by auto
qed

declare ankiBlocks.simps [simp del]


text \<open>The scheduling sub-state of a card: the five fields that the merger copies.\<close>

definition schedulingState ::
  "AnkiCard \<Rightarrow> number option \<times> number option \<times> number option \<times> number option \<times> number option"
  where
  "schedulingState c = (lastReviewed c, nextReview c, easeFactor c, interval c, reviewCount c)"

text \<open>The last card of a list that has a given id.\<close>

definition lastWithId :: "jsstring \<Rightarrow> AnkiCard list \<Rightarrow> AnkiCard option" where
  "lastWithId k cards' = find (\<lambda>p. id' p = k) (rev cards')"

text \<open>
  The freshly parsed cards of an indexing pass: the cards of every file that could be
  read, in file order, before the merge.
\<close>

fun parsedCards :: "(jsstring \<times> jsstring option) list \<Rightarrow> AnkiCard list" where
  "parsedCards [] = []"
| "parsedCards ((basename, None) # files) = parsedCards files"
| "parsedCards ((basename, Some content) # files) =
     findAnkiCardsInContent content basename @ parsedCards files"

text \<open>
  Example documents: one card; the same card after a line of text; the same card twice in
  one block; a card whose answer is empty.
\<close>

definition cardDoc :: jsstring where
  "cardDoc = js ''```anki'' @ [10] @ js ''Q'' @ [10, 63, 10] @ js ''A'' @ [10] @ js ''```''"

definition movedCardDoc :: jsstring where
  "movedCardDoc = js ''intro'' @ [10] @ cardDoc"

definition twinDoc :: jsstring where
  "twinDoc = js ''```anki'' @ [10] @ js ''Q'' @ [10, 63, 10] @ js ''A'' @ [10, 10] @
             js ''Q'' @ [10, 63, 10] @ js ''A'' @ [10] @ js ''```''"


text \<open>
  The cards of these examples: the card as the parser pushes it, as the merger
  initializes it, and as it is after one review rated Good at time 1000.
\<close>

definition parsedTwin :: AnkiCard where
  "parsedTwin =
     \<lparr>id' = js ''card_twbiid'', front = js ''Q'', back = js ''A'', sourceFile = js ''Geo'',
      position = 0, lastReviewed = None, nextReview = None,
      easeFactor = None, interval = None, reviewCount = None\<rparr>"

definition staleTwin :: AnkiCard where
  "staleTwin =
     \<lparr>id' = js ''card_twbiid'', front = js ''Q'', back = js ''A'', sourceFile = js ''Geo'',
      position = 0, lastReviewed = None, nextReview = None,
      easeFactor = Some 2.5, interval = Some 0, reviewCount = Some 0\<rparr>"

definition reviewedTwin :: AnkiCard where
  "reviewedTwin =
     \<lparr>id' = js ''card_twbiid'', front = js ''Q'', back = js ''A'', sourceFile = js ''Geo'',
      position = 0, lastReviewed = Some 1000, nextReview = Some 259201000,
      easeFactor = Some 2.5, interval = Some 3, reviewCount = Some 1\<rparr>"


definition slowSettings :: AnkiPluginSettings where
  "slowSettings = DEFAULT_SETTINGS\<lparr>intervalModifier := toDouble 0.7\<rparr>"


definition emptyPlugin :: AnkiPlugin where
  "emptyPlugin = \<lparr>storedCards = None, cardData = None, saveCount = 0\<rparr>"

text \<open>
  A stored card whose text is no longer in any file, and the plugin whose store holds a
  given card list, with nothing loaded yet.
\<close>

definition goneCard :: AnkiCard where
  "goneCard =
     \<lparr>id' = js ''card_gone'', front = js ''G'', back = js ''H'', sourceFile = js ''Geo'',
      position = 0, lastReviewed = Some 1000, nextReview = Some 86401000,
      easeFactor = Some (toDouble 2.35), interval = Some 1, reviewCount = Some 1\<rparr>"

definition pluginWith :: "AnkiCard list \<Rightarrow> AnkiPlugin" where
  "pluginWith cards' =
     \<lparr>storedCards = Some \<lparr>timestamp = js ''t0'', totalCards = length cards', cards = cards'\<rparr>,
      cardData = None, saveCount = 0\<rparr>"

text \<open>
  Five cards that were never reviewed and are not due at time 1000, in a store of their
  own, and settings with three cards per session and ten new cards per day.
\<close>

definition futureCard :: "nat \<Rightarrow> AnkiCard" where
  "futureCard n =
     \<lparr>id' = js ''card_'' @ [48 + n], front = js ''Q'', back = js ''A'', sourceFile = js ''Geo'',
      position = n, lastReviewed = None, nextReview = Some 5000,
      easeFactor = Some 2.5, interval = Some 0, reviewCount = Some 0\<rparr>"

definition fiveNewCards :: "AnkiCard list" where
  "fiveNewCards = [futureCard 1, futureCard 2, futureCard 3, futureCard 4, futureCard 5]"

definition sessionOfThree :: AnkiPluginSettings where
  "sessionOfThree = DEFAULT_SETTINGS\<lparr>cardsPerSession := 3, newCardsPerDay := 10\<rparr>"

section \<open>Properties of double rounding\<close>

lemma floorlog_two_bounds:
  assumes "0 < n"
  shows "0 < floorlog 2 n" and "(2::real) ^ (floorlog 2 n - 1) \<le> real n"
    and "real n + 1 \<le> 2 ^ floorlog 2 n"
proof -
  show "0 < floorlog 2 n" using assms by (simp add: floorlog_def)
  have b: "2 ^ (floorlog 2 n - 1) \<le> n \<and> n < 2 ^ floorlog 2 n"
    using floorlog_bounds [of n 2] assms by simp
  then have "real (2 ^ (floorlog 2 n - 1)) \<le> real n"
    using of_nat_le_iff by blast
  then show "(2::real) ^ (floorlog 2 n - 1) \<le> real n" by simp
  from b have "n + 1 \<le> 2 ^ floorlog 2 n" by simp
  then have "real (n + 1) \<le> real (2 ^ floorlog 2 n)"
    using of_nat_le_iff by blast
  then show "real n + 1 \<le> 2 ^ floorlog 2 n" by simp
qed

lemma binade_bounds:
  assumes "x \<noteq> 0"
  shows "2 powi binade x \<le> \<bar>x\<bar> \<and> \<bar>x\<bar> < 2 powi (binade x + 1)"
proof (cases "1 \<le> \<bar>x\<bar>")
  case True
  define n where "n = nat \<lfloor>\<bar>x\<bar>\<rfloor>"
  have "1 \<le> \<lfloor>\<bar>x\<bar>\<rfloor>" using True by simp
  then have n0: "0 < n" and nfl: "real n = of_int \<lfloor>\<bar>x\<bar>\<rfloor>"
    unfolding n_def by simp_all
  have n: "real n \<le> \<bar>x\<bar>" "\<bar>x\<bar> < real n + 1"
    unfolding nfl by linarith+
  define k where "k = floorlog 2 n"
  note k = floorlog_two_bounds [OF n0, folded k_def]
  have e: "binade x = int k - 1"
    using True by (simp add: binade_def n_def k_def)
  have "int k - 1 = int (k - 1)" using k(1) by simp
  then have "(2::real) powi (int k - 1) = 2 ^ (k - 1)"
    by (metis power_int_of_nat)
  also have "\<dots> \<le> real n" by (rule k(2))
  also have "\<dots> \<le> \<bar>x\<bar>" by (rule n(1))
  finally have lo: "(2::real) powi (int k - 1) \<le> \<bar>x\<bar>" .
  have hi: "\<bar>x\<bar> < (2::real) powi (int k - 1 + 1)"
    using k(3) n(2) by simp
  from lo hi e show ?thesis by simp
next
  case False
  define a where "a = \<bar>x\<bar>"
  have a: "0 < a" "a < 1" using False assms by (auto simp: a_def)
  define m where "m = \<lceil>1 / a\<rceil>"
  have inv: "1 < 1 / a" using a by simp
  have m2: "1 / a \<le> of_int m" "of_int m - 1 < 1 / a"
    unfolding m_def by linarith+
  have "1 < (of_int m :: real)" using inv m2(1) by linarith
  then have m1: "2 \<le> m" by linarith
  define n where "n = nat (m - 1)"
  have n0: "0 < n" and nm: "real n = of_int m - 1" using m1 by (auto simp: n_def)
  define k where "k = floorlog 2 n"
  note k = floorlog_two_bounds [OF n0, folded k_def]
  have e: "binade x = - int k"
    using False by (simp add: binade_def a_def m_def n_def k_def)
  have p: "(0::real) < 2 ^ k" "(0::real) < 2 ^ (k - 1)" by simp_all
  have "1 / a \<le> 2 ^ k" using k(3) nm m2(1) by linarith
  then have "1 \<le> 2 ^ k * a" using a(1) by (simp add: field_simps)
  then have "1 / 2 ^ k \<le> a" using p(1) by (simp add: field_simps)
  then have lo: "(2::real) powi (- int k) \<le> a"
    by (simp add: power_int_minus_divide)
  have "2 ^ (k - 1) < 1 / a" using k(2) nm m2(2) by linarith
  then have "2 ^ (k - 1) * a < 1" using a(1) by (simp add: field_simps)
  then have "a < 1 / 2 ^ (k - 1)" using p(2) by (simp add: field_simps)
  moreover have "- int k + 1 = - int (k - 1)" using k(1) by simp
  then have "(2::real) powi (- int k + 1) = 1 / 2 ^ (k - 1)"
    by (metis power_int_minus_divide power_int_of_nat)
  ultimately have hi: "a < (2::real) powi (- int k + 1)" by simp
  from lo hi e show ?thesis by (simp add: a_def)
qed

lemma roundTiesToEven_cases:
  "roundTiesToEven y = \<lfloor>y\<rfloor> \<or> (roundTiesToEven y = \<lfloor>y\<rfloor> + 1 \<and> 1 / 2 \<le> y - of_int \<lfloor>y\<rfloor>)"
  by (auto simp: roundTiesToEven_def Let_def)

lemma roundTiesToEven_le:
  assumes "y \<le> of_int K"
  shows "roundTiesToEven y \<le> K"
proof -
  have f: "\<lfloor>y\<rfloor> \<le> K" using assms by (simp add: floor_le_iff)
  show ?thesis
  proof (cases "roundTiesToEven y = \<lfloor>y\<rfloor>")
    case True
    with f show ?thesis by simp
  next
    case False
    with roundTiesToEven_cases [of y]
    have r: "roundTiesToEven y = \<lfloor>y\<rfloor> + 1" and h: "1 / 2 \<le> y - of_int \<lfloor>y\<rfloor>" by auto
    have "of_int \<lfloor>y\<rfloor> < (of_int K :: real)" using h assms by linarith
    then have "\<lfloor>y\<rfloor> < K" by simp
    with r show ?thesis by simp
  qed
qed

lemma roundTiesToEven_ge:
  assumes "of_int K \<le> y"
  shows "K \<le> roundTiesToEven y"
proof -
  have "K \<le> \<lfloor>y\<rfloor>" using assms by (simp add: le_floor_iff)
  with roundTiesToEven_cases [of y] show ?thesis by auto
qed

lemma roundTiesToEven_of_int: "roundTiesToEven (of_int K) = K"
  using roundTiesToEven_le [of "of_int K" K] roundTiesToEven_ge [of K "of_int K"] by simp

lemma binade_less:
  assumes "x \<noteq> 0" and "\<bar>x\<bar> < 2 powi n"
  shows "binade x < n"
proof (rule ccontr)
  assume "\<not> binade x < n"
  then have "n \<le> binade x" by simp
  then have "(2::real) powi n \<le> 2 powi binade x"
    by (rule power_int_increasing) simp
  with binade_bounds [OF assms(1)] assms(2) show False by linarith
qed

lemma binade_ge:
  assumes "x \<noteq> 0" and "2 powi n \<le> \<bar>x\<bar>"
  shows "n \<le> binade x"
proof (rule ccontr)
  assume "\<not> n \<le> binade x"
  then have "binade x + 1 \<le> n" by simp
  then have "(2::real) powi (binade x + 1) \<le> 2 powi n"
    by (rule power_int_increasing) simp
  with binade_bounds [OF assms(1)] assms(2) show False by linarith
qed

lemma binade_unique:
  assumes "2 powi e \<le> \<bar>x\<bar>" and "\<bar>x\<bar> < 2 powi (e + 1)"
  shows "binade x = e"
proof -
  have "(0::real) < 2 powi e" by simp
  then have "0 < \<bar>x\<bar>" using assms(1) by (rule less_le_trans)
  then have x: "x \<noteq> 0" by simp
  from binade_less [OF x assms(2)] binade_ge [OF x assms(1)] show ?thesis by simp
qed

lemma below_two_53:
  assumes "K < 2 ^ 53"
  shows "of_int K * (2::real) powi c < 2 powi (53 + c)"
proof -
  have "(of_int K :: real) < 2 ^ 53"
    using assms by (simp add: of_int_less_numeral_power_cancel_iff)
  then have "of_int K * (2::real) powi c < 2 ^ 53 * 2 powi c"
    by (rule mult_strict_right_mono) simp
  also have "\<dots> = 2 powi (53 + c)"
    by (simp add: power_int_add)
  finally show ?thesis .
qed

text \<open>A dyadic number with a coarser exponent is an integer multiple of a finer unit.\<close>

lemma dyadic_multiple:
  assumes "d \<le> c"
  shows "of_int K * (2::real) powi c = of_int (K * 2 ^ nat (c - d)) * 2 powi d"
proof -
  have "(2::real) powi c = 2 powi (c - d) * 2 powi d"
    by (simp flip: power_int_add)
  also have "(2::real) powi (c - d) = 2 ^ nat (c - d)"
    using assms by (simp add: power_int_def)
  finally show ?thesis by simp
qed

lemma toDouble_unit:
  assumes "x \<noteq> 0"
  shows "toDouble x = of_int (roundTiesToEven (x / 2 powi (binade x - 52))) * 2 powi (binade x - 52)"
  using assms by (simp add: toDouble_def)

lemma toDouble_nonneg: "0 \<le> x \<Longrightarrow> 0 \<le> toDouble x"
proof (cases "x = 0")
  case True
  then show ?thesis by (simp add: toDouble_def)
next
  case False
  assume "0 \<le> x"
  then have "of_int 0 \<le> x / 2 powi (binade x - 52)" by simp
  then have "0 \<le> roundTiesToEven (x / 2 powi (binade x - 52))"
    by (rule roundTiesToEven_ge)
  then show ?thesis by (simp add: toDouble_unit [OF False])
qed

lemma toDouble_nonpos: "x \<le> 0 \<Longrightarrow> toDouble x \<le> 0"
proof (cases "x = 0")
  case True
  then show ?thesis by (simp add: toDouble_def)
next
  case False
  assume "x \<le> 0"
  then have "x / 2 powi (binade x - 52) \<le> of_int 0"
    by (simp add: divide_nonpos_pos)
  then have "roundTiesToEven (x / 2 powi (binade x - 52)) \<le> 0"
    by (rule roundTiesToEven_le)
  then show ?thesis
    by (simp add: toDouble_unit [OF False] mult_le_0_iff)
qed

lemma toDouble_le_double:
  assumes "0 < x" and "x \<le> of_int K * 2 powi c" and "K < 2 ^ 53"
  shows "toDouble x \<le> of_int K * 2 powi c"
proof -
  let ?u = "(2::real) powi (binade x - 52)"
  have x: "x \<noteq> 0" using assms(1) by simp
  have "\<bar>x\<bar> < 2 powi (53 + c)"
    using below_two_53 [OF assms(3), of c] assms(1,2) by linarith
  then have "binade x < 53 + c" by (rule binade_less [OF x])
  then have "binade x - 52 \<le> c" by simp
  from dyadic_multiple [OF this, of K]
  obtain M :: int where M: "of_int K * (2::real) powi c = of_int M * ?u" by blast
  have "x / ?u \<le> of_int M" using assms(2) M by (simp add: field_simps)
  then have "roundTiesToEven (x / ?u) \<le> M" by (rule roundTiesToEven_le)
  then have "of_int (roundTiesToEven (x / ?u)) * ?u \<le> of_int M * ?u" by simp
  then show ?thesis using M by (simp add: toDouble_unit [OF x])
qed

lemma toDouble_ge_double:
  assumes "0 < K" and "of_int K * 2 powi c \<le> x" and "K < 2 ^ 53"
  shows "of_int K * 2 powi c \<le> toDouble x"
proof -
  let ?u = "(2::real) powi (binade x - 52)"
  have pos: "0 < of_int K * (2::real) powi c" using assms(1) by simp
  then have x0: "0 < x" using assms(2) by linarith
  then have x: "x \<noteq> 0" by simp
  show ?thesis
  proof (cases "binade x - 52 \<le> c")
    case True
    from dyadic_multiple [OF this, of K]
    obtain M :: int where M: "of_int K * (2::real) powi c = of_int M * ?u" by blast
    have "of_int M \<le> x / ?u" using assms(2) M by (simp add: field_simps)
    then have "M \<le> roundTiesToEven (x / ?u)" by (rule roundTiesToEven_ge)
    then have "of_int M * ?u \<le> of_int (roundTiesToEven (x / ?u)) * ?u" by simp
    then show ?thesis using M by (simp add: toDouble_unit [OF x])
  next
    case False
    then have "53 + c \<le> binade x" by simp
    then have "(2::real) powi (53 + c) \<le> 2 powi binade x"
      by (rule power_int_increasing) simp
    then have small: "of_int K * (2::real) powi c < 2 powi binade x"
      using below_two_53 [OF assms(3), of c] by linarith
    have split: "(2::real) powi binade x = of_int (2 ^ 52) * ?u"
      using dyadic_multiple [of "binade x - 52" "binade x" 1] by simp
    have "2 powi binade x \<le> x" using binade_bounds [OF x] x0 by simp
    then have "of_int (2 ^ 52) \<le> x / ?u" using split by (simp add: field_simps)
    then have "2 ^ 52 \<le> roundTiesToEven (x / ?u)" by (rule roundTiesToEven_ge)
    then have "of_int (2 ^ 52) * ?u \<le> of_int (roundTiesToEven (x / ?u)) * ?u" by simp
    then have "2 powi binade x \<le> toDouble x"
      using split by (simp add: toDouble_unit [OF x])
    with small show ?thesis by linarith
  qed
qed

lemma toDouble_double:
  assumes "\<bar>K\<bar> < 2 ^ 53"
  shows "toDouble (of_int K * 2 powi c) = of_int K * 2 powi c"
proof (cases "K = 0")
  case True
  then show ?thesis by (simp add: toDouble_def)
next
  case False
  define x where "x = of_int K * (2::real) powi c"
  define u where "u = (2::real) powi (binade x - 52)"
  have x: "x \<noteq> 0" using False by (simp add: x_def)
  have u: "0 < u" by (simp add: u_def)
  have "\<bar>x\<bar> = of_int \<bar>K\<bar> * 2 powi c" by (simp add: x_def abs_mult)
  also have "\<dots> < 2 powi (53 + c)" by (rule below_two_53 [OF assms])
  finally have "binade x < 53 + c" by (rule binade_less [OF x])
  then have d: "binade x - 52 \<le> c" by simp
  define M where "M = K * 2 ^ nat (c - (binade x - 52))"
  have M: "x = of_int M * u"
    using dyadic_multiple [OF d, of K] by (simp add: M_def u_def x_def)
  then have "x / u = of_int M" using u by simp
  then have r: "roundTiesToEven (x / u) = M" by (simp add: roundTiesToEven_of_int)
  have "toDouble x = of_int (roundTiesToEven (x / u)) * u"
    unfolding u_def by (rule toDouble_unit [OF x])
  also have "\<dots> = of_int M * u" by (simp only: r)
  also have "\<dots> = x" by (rule M [symmetric])
  finally show ?thesis by (simp only: x_def)
qed

lemma toDouble_eval:
  assumes "2 powi e \<le> \<bar>x\<bar>" and "\<bar>x\<bar> < 2 powi (e + 1)"
  shows "toDouble x = of_int (roundTiesToEven (x / 2 powi (e - 52))) * 2 powi (e - 52)"
proof -
  have e: "binade x = e" using assms by (rule binade_unique)
  have "(0::real) < 2 powi e" by simp
  then have "0 < \<bar>x\<bar>" using assms(1) by (rule less_le_trans)
  then have "x \<noteq> 0" by simp
  then show ?thesis using e by (simp add: toDouble_def)
qed

text \<open>
  The rules that evaluate the double operations on numerals, and the doubles of the two
  literals of the scheduler that are not doubles themselves.
\<close>

lemmas double_eval =
  jsAdd_def jsSub_def jsMul_def toDouble_def binade_def compute_floorlog roundTiesToEven_def
  min_def max_def Let_def

lemma toDouble_13_10: "toDouble 1.3 = of_int 5854679515581645 * 2 powi (- 52)"
  by (simp add: double_eval)

lemma toDouble_15_100: "toDouble 0.15 = of_int 5404319552844595 * 2 powi (- 55)"
  by (simp add: double_eval)

lemma toDouble_13_10_bounds: "13 / 10 \<le> toDouble 1.3 \<and> toDouble 1.3 \<le> 5 / 2"
  by (simp add: toDouble_13_10)

section \<open>Properties of the scheduler\<close>

lemma updateEase_bounds:
  assumes "toDouble 1.3 \<le> ef" "ef \<le> 5 / 2" "0 \<le> easyBonus settings"
  shows "toDouble 1.3 \<le> updateEase settings ef r \<and> updateEase settings ef r \<le> 5 / 2"
proof -
  have low: "0 < toDouble 1.3" "toDouble 1.3 \<le> 5 / 2"
    using toDouble_13_10_bounds by linarith+
  have ef: "0 < ef" using assms(1) low(1) by linarith
  have d: "0 \<le> toDouble (toDouble 0.15)"
    by (intro toDouble_nonneg) simp
  have "ef \<le> of_int 5 * 2 powi (- 1)" using assms(2) by simp
  then have "toDouble ef \<le> of_int 5 * 2 powi (- 1)"
    by (rule toDouble_le_double [OF ef]) simp
  then have ef_hi: "toDouble ef \<le> 5 / 2" by simp
  have "of_int 5854679515581645 * 2 powi (- 52) \<le> ef"
    using assms(1) by (simp add: toDouble_13_10)
  then have "of_int 5854679515581645 * 2 powi (- 52) \<le> toDouble ef"
    by (rule toDouble_ge_double [rotated]) simp_all
  then have ef_lo: "toDouble 1.3 \<le> toDouble ef" by (simp add: toDouble_13_10)
  have hard: "jsSub ef (toDouble 0.15) \<le> 5 / 2"
  proof (cases "0 < toDouble ef - toDouble (toDouble 0.15)")
    case True
    have "toDouble ef - toDouble (toDouble 0.15) \<le> of_int 5 * 2 powi (- 1)"
      using ef_hi d by simp
    then have "toDouble (toDouble ef - toDouble (toDouble 0.15)) \<le> of_int 5 * 2 powi (- 1)"
      by (rule toDouble_le_double [OF True]) simp
    then show ?thesis by (simp add: jsSub_def)
  next
    case False
    then have "toDouble (toDouble ef - toDouble (toDouble 0.15)) \<le> 0"
      by (intro toDouble_nonpos) simp
    then show ?thesis by (simp add: jsSub_def)
  qed
  have b0: "0 \<le> toDouble (easyBonus settings)"
    using assms(3) by (rule toDouble_nonneg)
  have "0 \<le> toDouble (toDouble 0.15) * toDouble (easyBonus settings)"
    using d b0 by (rule mult_nonneg_nonneg)
  then have "0 \<le> jsMul (toDouble 0.15) (easyBonus settings)"
    unfolding jsMul_def by (rule toDouble_nonneg)
  then have bonus: "0 \<le> toDouble (jsMul (toDouble 0.15) (easyBonus settings))"
    by (rule toDouble_nonneg)
  have "of_int 5854679515581645 * 2 powi (- 52) \<le>
      toDouble ef + toDouble (jsMul (toDouble 0.15) (easyBonus settings))"
    using ef_lo bonus by (simp add: toDouble_13_10)
  then have "of_int 5854679515581645 * 2 powi (- 52) \<le>
      toDouble (toDouble ef + toDouble (jsMul (toDouble 0.15) (easyBonus settings)))"
    by (rule toDouble_ge_double [rotated]) simp_all
  then have easy: "toDouble 1.3 \<le> jsAdd ef (jsMul (toDouble 0.15) (easyBonus settings))"
    by (simp add: jsAdd_def toDouble_13_10)
  show ?thesis
    using assms(1,2) low(2) hard easy unfolding updateEase_def min_def max_def by auto
qed

lemma calculateNextReview_easeFactor:
  "easeFactor (calculateNextReview settings now c r) =
     Some (updateEase settings (orDefault (easeFactor c) 2.5) r)"
  by (simp add: calculateNextReview_def Let_def)

lemma calculateNextReview_interval:
  "interval (calculateNextReview settings now c r) =
     Some (updateInterval settings (orDefault (interval c) 0)
             (updateEase settings (orDefault (easeFactor c) 2.5) r) r)"
  by (simp add: calculateNextReview_def Let_def)

lemma orDefault_ease_bounds:
  assumes "easeFactor c = None \<or> easeInRange c"
  shows "toDouble 1.3 \<le> orDefault (easeFactor c) 2.5 \<and> orDefault (easeFactor c) 2.5 \<le> 5 / 2"
proof (cases "easeFactor c")
  case None
  then show ?thesis using toDouble_13_10_bounds by simp
next
  case (Some ef)
  with assms have "toDouble 1.3 \<le> ef \<and> ef \<le> 5 / 2"
    by (simp add: easeInRange_def)
  moreover have "0 < toDouble 1.3" using toDouble_13_10_bounds by linarith
  ultimately show ?thesis using Some by simp
qed

lemma calculateNextReview_easeInRange:
  assumes "easeFactor c = None \<or> easeInRange c" "0 \<le> easyBonus settings"
  shows "easeInRange (calculateNextReview settings now c r)"
  using updateEase_bounds [OF conjunct1 [OF orDefault_ease_bounds [OF assms(1)]]
      conjunct2 [OF orDefault_ease_bounds [OF assms(1)]] assms(2), of r]
  by (simp add: easeInRange_def calculateNextReview_easeFactor)

lemma reviewAll_easeInRange:
  assumes "0 \<le> easyBonus settings"
  shows "easeFactor c = None \<or> easeInRange c \<Longrightarrow> calls \<noteq> [] \<Longrightarrow>
    easeInRange (reviewAll settings c calls)"
proof (induction calls arbitrary: c)
  case Nil
  then show ?case by simp
next
  case (Cons call calls)
  obtain now r where call: "call = (now, r)" by (cases call)
  have step: "easeInRange (calculateNextReview settings now c r)"
    using Cons.prems(1) assms by (rule calculateNextReview_easeInRange)
  show ?case
  proof (cases "calls = []")
    case True
    then show ?thesis using step call by simp
  next
    case False
    then show ?thesis using Cons.IH [of "calculateNextReview settings now c r"] step call by simp
  qed
qed

text \<open>
  Claim C2. A card whose ease factor is unset or 2.5 goes through any sequence of
  scheduler calls with ratings 1, 2 or 3, under settings with \<open>easyBonus\<close> between 1 and
  2: after each call (after the first \<open>n\<close> calls, for every \<open>n\<close> from 1 to the length of
  the sequence) its ease factor is set and lies between 1.3 and 2.5.
\<close>

theorem ease_bounds:
  assumes "easeFactor c = None \<or> easeFactor c = Some 2.5"
    and "\<forall>call \<in> set calls. snd call \<in> {1, 2, 3}"
    and "1 \<le> easyBonus settings" and "easyBonus settings \<le> 2"
    and "0 < n" and "n \<le> length calls"
  shows "\<exists>ef. easeFactor (reviewAll settings c (take n calls)) = Some ef \<and> 1.3 \<le> ef \<and> ef \<le> 2.5"
proof -
  have init: "easeFactor c = None \<or> easeInRange c"
    using assms(1) toDouble_13_10_bounds by (auto simp: easeInRange_def)
  have ne: "take n calls \<noteq> []" using assms(5,6) by auto
  have "easeInRange (reviewAll settings c (take n calls))"
    using reviewAll_easeInRange [OF _ init ne] assms(3) by simp
  then show ?thesis
    using toDouble_13_10_bounds by (auto simp: easeInRange_def split: option.splits)
qed

theorem ease_bounds_witness:
  "let c = \<lparr>id' = [], front = [], back = [], sourceFile = [], position = 0,
             lastReviewed = None, nextReview = None, easeFactor = None,
             interval = None, reviewCount = None\<rparr>;
       calls = [(1000, 1), (2000, 3), (3000, 2)]
   in (easeFactor c = None \<or> easeFactor c = Some 2.5) \<and>
      (\<forall>call \<in> set calls. snd call \<in> {1, 2, 3}) \<and>
      1 \<le> easyBonus DEFAULT_SETTINGS \<and> easyBonus DEFAULT_SETTINGS \<le> 2 \<and>
      (0::nat) < 2 \<and> 2 \<le> length calls \<and>
      easeFactor (reviewAll DEFAULT_SETTINGS c (take 2 calls)) = Some 2.5"
  using ease_bounds [of "\<lparr>id' = [], front = [], back = [], sourceFile = [], position = 0,
             lastReviewed = None, nextReview = None, easeFactor = None,
             interval = None, reviewCount = None\<rparr>" "[(1000, 1), (2000, 3), (3000, 2)]" DEFAULT_SETTINGS 2]
  by (simp add: DEFAULT_SETTINGS_def calculateNextReview_def updateEase_def double_eval)


lemma updateInterval_first:
  "updateInterval settings 0 ef 1 = 1 \<and> updateInterval settings 0 ef 2 = 3 \<and>
   updateInterval settings 0 ef 3 = 7"
  by (simp add: updateInterval_def)

lemma orDefault_falsy: "falsy x \<Longrightarrow> orDefault x d = d"
  by (cases x) simp_all

text \<open>
  Claim C3. On a card whose interval is unset or 0, a scheduler call with rating 1 (Hard)
  sets the interval to 1, with rating 2 (Good) to 3, with rating 3 (Easy) to 7, and
  replacing the card's ease factor by any other value, or by none, gives the same
  interval.
\<close>

theorem first_review_intervals:
  assumes "falsy (interval c)"
  shows "interval (calculateNextReview settings now c 1) = Some 1 \<and>
         interval (calculateNextReview settings now c 2) = Some 3 \<and>
         interval (calculateNextReview settings now c 3) = Some 7 \<and>
         (\<forall>r \<in> {1, 2, 3}. \<forall>e.
            interval (calculateNextReview settings now (c\<lparr>easeFactor := e\<rparr>) r) =
            interval (calculateNextReview settings now c r))"
  using assms updateInterval_first
  by (simp add: calculateNextReview_interval orDefault_falsy)

theorem first_review_intervals_witness:
  "let c = \<lparr>id' = [], front = [], back = [], sourceFile = [], position = 0,
             lastReviewed = None, nextReview = None, easeFactor = Some 1.3,
             interval = Some 0, reviewCount = None\<rparr>
   in falsy (interval c) \<and>
      interval (calculateNextReview DEFAULT_SETTINGS 1000 c 1) = Some 1 \<and>
      interval (calculateNextReview DEFAULT_SETTINGS 1000 c 2) = Some 3 \<and>
      interval (calculateNextReview DEFAULT_SETTINGS 1000 c 3) = Some 7"
  using first_review_intervals [of "\<lparr>id' = [], front = [], back = [], sourceFile = [],
             position = 0, lastReviewed = None, nextReview = None, easeFactor = Some 1.3,
             interval = Some 0, reviewCount = None\<rparr>" DEFAULT_SETTINGS 1000]
  by simp





text \<open>
  The double operations at work: a product that rounds up to a tie (interval 1, ease
  factor 2.5 and interval modifier 0.6 give 2, where the exact product with the double of
  0.6 is below 1.5 and would give 1), the product of the witness, and a difference that is
  not the decimal one (2.2 - 0.15 is 2.0500000000000003).
\<close>

lemma double_operation_examples:
  "updateInterval (DEFAULT_SETTINGS\<lparr>intervalModifier := 0.6\<rparr>) 1 2.5 2 = 2 \<and>
   min (Math_round (1 * 2.5 * toDouble 0.6)) 365 = 1 \<and>
   updateInterval (DEFAULT_SETTINGS\<lparr>intervalModifier := 0.7\<rparr>) 18 2.5 2 = 31 \<and>
   updateInterval slowSettings 18 2.5 2 = 31 \<and>
   updateEase DEFAULT_SETTINGS 2.2 1 = 4616189618054759 / 2251799813685248 \<and>
   updateEase DEFAULT_SETTINGS (toDouble 2.2) 1 = 4616189618054759 / 2251799813685248"
  by (simp add: updateInterval_def updateEase_def DEFAULT_SETTINGS_def slowSettings_def
      Math_round_def double_eval)

text \<open>The example card, never reviewed, rated Good at time 1000.\<close>

lemma review_staleTwin: "calculateNextReview DEFAULT_SETTINGS 1000 staleTwin 2 = reviewedTwin"
  by (simp add: calculateNextReview_def staleTwin_def reviewedTwin_def updateEase_def
      updateInterval_def millisecondsPerDay_def double_eval)

text \<open>
  Claim C5. For every card, every rating 1, 2 or 3, and every \<open>maxInterval\<close> between 30
  and 1000, the interval after a scheduler call is set and is at most \<open>maxInterval\<close>; this
  covers the first-review branch with its fixed intervals 1, 3 and 7.
\<close>

theorem interval_bound:
  assumes "r \<in> {1, 2, 3}" and "30 \<le> maxInterval settings" and "maxInterval settings \<le> 1000"
  shows "\<exists>iv. interval (calculateNextReview settings now c r) = Some iv \<and>
              iv \<le> maxInterval settings"
  using assms by (auto simp: calculateNextReview_interval updateInterval_def)

theorem interval_bound_witness:
  "let c = \<lparr>id' = [], front = [], back = [], sourceFile = [], position = 0,
             lastReviewed = None, nextReview = None, easeFactor = None,
             interval = None, reviewCount = None\<rparr>
   in (3::real) \<in> {1, 2, 3} \<and> 30 \<le> maxInterval DEFAULT_SETTINGS \<and>
      maxInterval DEFAULT_SETTINGS \<le> 1000 \<and>
      interval (calculateNextReview DEFAULT_SETTINGS 1000 c 3) = Some 7 \<and>
      7 \<le> maxInterval DEFAULT_SETTINGS"
  using interval_bound [of 3 DEFAULT_SETTINGS 1000 "\<lparr>id' = [], front = [], back = [],
             sourceFile = [], position = 0, lastReviewed = None, nextReview = None,
             easeFactor = None, interval = None, reviewCount = None\<rparr>"]
  by (simp add: DEFAULT_SETTINGS_def calculateNextReview_interval updateInterval_def)

section \<open>Properties of the parser\<close>

lemmas parser_eval =
  findAnkiCardsInContent_def ankiBlockLoop.simps ankiBlockRegex_exec_def fenceOpen_def
  fenceClose_def js_def startsWith_def splitCards_def splitParts_def cardSeparatorAhead_def
  qaSeparator_def Let_def

lemmas hasher_eval =
  generateCardId_def hashStep_def toInt32_def toString36.simps digit36_def js_def Let_def

lemma cardLoop_invariant:
  assumes "\<And>part0 part1. P (newCard fileName pos part0 part1)"
  shows "(\<forall>c \<in> set cards'. P c) \<Longrightarrow> (\<forall>c \<in> set (cardLoop fileName pos cardContents cards'). P c)"
proof (induction cardContents arbitrary: cards')
  case Nil
  then show ?case by simp
next
  case (Cons cardContent cardContents)
  let ?parts = "splitParts cardContent"
  let ?next = "if length ?parts = 2 then cards' @ [newCard fileName pos (?parts ! 0) (?parts ! 1)]
               else cards'"
  have "\<forall>c \<in> set ?next. P c"
    using Cons.prems assms by auto
  then have "\<forall>c \<in> set (cardLoop fileName pos cardContents ?next). P c"
    by (rule Cons.IH)
  then show ?case by (simp add: Let_def)
qed

lemma ankiBlockLoop_invariant:
  "(\<And>pos part0 part1. P (newCard fileName pos part0 part1)) \<Longrightarrow>
   (\<forall>c \<in> set cards'. P c) \<Longrightarrow>
   (\<forall>c \<in> set (ankiBlockLoop content fileName lastIndex cards'). P c)"
proof (induction content fileName lastIndex cards' rule: ankiBlockLoop.induct)
  case (1 content fileName lastIndex cards')
  show ?case
  proof (cases "ankiBlockRegex_exec content lastIndex")
    case None
    then show ?thesis using "1.prems"(2) by (simp add: ankiBlockLoop.simps)
  next
    case (Some m)
    obtain blockContent pos lastIndex' where m: "m = (blockContent, pos, lastIndex')"
      by (cases m)
    have "\<forall>c \<in> set (cardLoop fileName pos (splitCards blockContent) cards'). P c"
      by (rule cardLoop_invariant [OF "1.prems"])
    then have "\<forall>c \<in> set (ankiBlockLoop content fileName lastIndex'
                 (cardLoop fileName pos (splitCards blockContent) cards')). P c"
      using "1.IH" [OF Some _ _ "1.prems"(1), of blockContent "(pos, lastIndex')" pos lastIndex'] m
      by simp
    then show ?thesis
      using Some m by (simp add: ankiBlockLoop.simps [of content fileName lastIndex])
  qed
qed

lemma findAnkiCardsInContent_invariant:
  assumes "\<And>pos part0 part1. P (newCard fileName pos part0 part1)"
    and "c \<in> set (findAnkiCardsInContent content fileName)"
  shows "P c"
  using ankiBlockLoop_invariant [of P fileName "[]" content 0, OF assms(1)] assms(2)
  by (simp add: findAnkiCardsInContent_def)

lemma parsed_card_shape:
  assumes "c \<in> set (findAnkiCardsInContent content fileName)"
  shows "id' c = generateCardId (front c) (back c) (sourceFile c) \<and> sourceFile c = fileName \<and>
         schedulingState c = (None, None, None, None, None)"
  using assms
  by (rule findAnkiCardsInContent_invariant [rotated]) (simp add: newCard_def schedulingState_def)

text \<open>
  The example documents, parsed. The same card text gives the same card whether it
  stands at offset 0 or at offset 6, and the same text twice in a block gives two cards
  with one id.
\<close>

lemma parse_cardDoc: "findAnkiCardsInContent cardDoc (js ''Geo'') = [parsedTwin]"
  by (simp add: cardDoc_def parsedTwin_def newCard_def trim_def isWhiteSpace_def parser_eval hasher_eval)

lemma parse_movedCardDoc:
  "findAnkiCardsInContent movedCardDoc (js ''Geo'') = [parsedTwin\<lparr>position := 6\<rparr>]"
  by (simp add: movedCardDoc_def cardDoc_def parsedTwin_def newCard_def trim_def isWhiteSpace_def parser_eval hasher_eval)

lemma parse_twinDoc: "findAnkiCardsInContent twinDoc (js ''Geo'') = [parsedTwin, parsedTwin]"
  by (simp add: twinDoc_def parsedTwin_def newCard_def trim_def isWhiteSpace_def parser_eval hasher_eval)



lemma twin_ids: "id' parsedTwin = js ''card_twbiid'' \<and> id' staleTwin = js ''card_twbiid'' \<and>
  id' reviewedTwin = js ''card_twbiid''"
  by (simp add: parsedTwin_def staleTwin_def reviewedTwin_def)

text \<open>
  Claim C9. The id of a card is \<open>generateCardId\<close> of its trimmed front, its trimmed back
  and its source file name, and of nothing else: two cards that the parser produces, from
  any two documents and at any two positions, have the same id whenever their front,
  back and source file agree.
\<close>

theorem card_id_from_content_only:
  assumes "c1 \<in> set (findAnkiCardsInContent content1 fileName1)"
    and "c2 \<in> set (findAnkiCardsInContent content2 fileName2)"
    and "front c1 = front c2" and "back c1 = back c2" and "sourceFile c1 = sourceFile c2"
  shows "id' c1 = generateCardId (front c1) (back c1) (sourceFile c1) \<and> id' c1 = id' c2"
  using parsed_card_shape [OF assms(1)] parsed_card_shape [OF assms(2)] assms(3-5)
  by simp

text \<open>
  The same card at offsets 0 and 6 of two documents: one id.
\<close>

theorem card_id_from_content_only_witness:
  "parsedTwin \<in> set (findAnkiCardsInContent cardDoc (js ''Geo'')) \<and>
   parsedTwin\<lparr>position := 6\<rparr> \<in> set (findAnkiCardsInContent movedCardDoc (js ''Geo'')) \<and>
   front parsedTwin = front (parsedTwin\<lparr>position := 6\<rparr>) \<and>
   back parsedTwin = back (parsedTwin\<lparr>position := 6\<rparr>) \<and>
   sourceFile parsedTwin = sourceFile (parsedTwin\<lparr>position := 6\<rparr>) \<and>
   position parsedTwin \<noteq> position (parsedTwin\<lparr>position := 6\<rparr>) \<and>
   id' parsedTwin = id' (parsedTwin\<lparr>position := 6\<rparr>)"
  using card_id_from_content_only [of parsedTwin cardDoc "js ''Geo''"
      "parsedTwin\<lparr>position := 6\<rparr>" movedCardDoc "js ''Geo''"]
  by (simp add: parse_cardDoc parse_movedCardDoc parsedTwin_def)

text \<open>
  Changing the front, the back or the file name can change the id.
\<close>

lemma card_id_changes_with_inputs:
  "generateCardId (js ''Q'') (js ''A'') (js ''Geo'') = js ''card_twbiid'' \<and>
   generateCardId (js ''R'') (js ''A'') (js ''Geo'') \<noteq> js ''card_twbiid'' \<and>
   generateCardId (js ''Q'') (js ''B'') (js ''Geo'') \<noteq> js ''card_twbiid'' \<and>
   generateCardId (js ''Q'') (js ''A'') (js ''Gen'') \<noteq> js ''card_twbiid''"
  by (simp add: hasher_eval)





lemmas blocks_eval =
  ankiBlocks.simps ankiBlockRegex_exec_def fenceOpen_def fenceClose_def js_def startsWith_def
  Let_def



text \<open>
  The splits of the example with two cards in one block, and card texts with no
  separator and with two separators: one part and three parts.
\<close>

lemma twinDoc_blocks:
  "ankiBlocks twinDoc 0 =
     [(js ''Q'' @ [10, 63, 10] @ js ''A'' @ [10, 10] @ js ''Q'' @ [10, 63, 10] @ js ''A'', 0)] \<and>
   splitCards (js ''Q'' @ [10, 63, 10] @ js ''A'' @ [10, 10] @ js ''Q'' @ [10, 63, 10] @ js ''A'') =
     [js ''Q'' @ [10, 63, 10] @ js ''A'', js ''Q'' @ [10, 63, 10] @ js ''A''] \<and>
   splitParts (js ''Q'' @ [10, 63, 10] @ js ''A'') = [js ''Q'', js ''A''] \<and>
   splitParts (js ''Q'') = [js ''Q''] \<and>
   splitParts (js ''Q'' @ [10, 63, 10] @ js ''A'' @ [10, 63, 10] @ js ''B'') =
     [js ''Q'', js ''A'', js ''B'']"
  by (simp add: twinDoc_def blocks_eval splitCards_def splitParts_def cardSeparatorAhead_def
      qaSeparator_def)

section \<open>Properties of the merger and of the indexing pass\<close>

lemma buildExistingCards_snoc:
  "buildExistingCards (cs @ [c]) = (buildExistingCards cs)(id' c \<mapsto> c)"
  by (simp add: buildExistingCards_def)

lemma buildExistingCards_lastWithId: "buildExistingCards cs k = lastWithId k cs"
proof (induction cs rule: rev_induct)
  case Nil
  show ?case by (simp add: buildExistingCards_def lastWithId_def)
next
  case (snoc c cs)
  then show ?case by (simp add: buildExistingCards_snoc lastWithId_def)
qed

lemma lastWithId_None: "lastWithId k cs = None \<longleftrightarrow> k \<notin> id' ` set cs"
  by (auto simp: lastWithId_def find_None_iff)

lemma find_Some_member: "find P xs = Some x \<Longrightarrow> P x \<and> x \<in> set xs"
  by (induction xs) (auto split: if_splits)

lemma lastWithId_Some:
  assumes "lastWithId k cs = Some p"
  shows "p \<in> set cs \<and> id' p = k"
  using find_Some_member [of "\<lambda>p. id' p = k" "rev cs" p] assms unfolding lastWithId_def by simp

lemma lastWithId_distinct:
  assumes "distinct (map id' cs)" and "p \<in> set cs"
  shows "lastWithId (id' p) cs = Some p"
proof -
  have "id' p \<in> id' ` set cs" using assms(2) by blast
  then obtain q where q: "lastWithId (id' p) cs = Some q"
    using lastWithId_None [of "id' p" cs] by (cases "lastWithId (id' p) cs") auto
  then have "q \<in> set cs" and "id' q = id' p"
    using lastWithId_Some by blast+
  then have "q = p"
    using assms by (meson distinct_map inj_onD)
  with q show ?thesis by simp
qed

lemma schedulingState_mergeCard_Some:
  "existingCards (id' c) = Some p \<Longrightarrow>
     schedulingState (mergeCard existingCards c) = schedulingState p"
  by (simp add: mergeCard_def schedulingState_def)

lemma schedulingState_mergeCard_None:
  "existingCards (id' c) = None \<Longrightarrow>
     schedulingState (mergeCard existingCards c) =
       (lastReviewed c, nextReview c, Some 2.5, Some 0, Some 0)"
  by (simp add: mergeCard_def schedulingState_def)

lemma mergeCard_keeps:
  "id' (mergeCard existingCards c) = id' c \<and> front (mergeCard existingCards c) = front c \<and>
   back (mergeCard existingCards c) = back c \<and>
   sourceFile (mergeCard existingCards c) = sourceFile c \<and>
   position (mergeCard existingCards c) = position c"
  by (simp add: mergeCard_def split: option.splits)

lemma length_mergeCards: "length (mergeCards existingCards cs) = length cs"
  by (simp add: mergeCards_def)

lemma nth_mergeCards:
  "i < length cs \<Longrightarrow> mergeCards existingCards cs ! i = mergeCard existingCards (cs ! i)"
  by (simp add: mergeCards_def)

lemma merge_of_parsed:
  assumes "c \<in> set (findAnkiCardsInContent content fileName)"
  shows "(id' c \<in> id' ` set old \<longrightarrow>
            (\<exists>p. lastWithId (id' c) old = Some p \<and> p \<in> set old \<and> id' p = id' c \<and>
                 schedulingState (mergeCard (buildExistingCards old) c) = schedulingState p))"
    and "(distinct (map id' old) \<longrightarrow>
            (\<forall>p \<in> set old. id' p = id' c \<longrightarrow>
               schedulingState (mergeCard (buildExistingCards old) c) = schedulingState p))"
    and "(id' c \<notin> id' ` set old \<longrightarrow>
            schedulingState (mergeCard (buildExistingCards old) c) =
              (None, None, Some 2.5, Some 0, Some 0))"
proof -
  show "id' c \<in> id' ` set old \<longrightarrow>
            (\<exists>p. lastWithId (id' c) old = Some p \<and> p \<in> set old \<and> id' p = id' c \<and>
                 schedulingState (mergeCard (buildExistingCards old) c) = schedulingState p)"
  proof
    assume "id' c \<in> id' ` set old"
    then obtain p where p: "lastWithId (id' c) old = Some p"
      using lastWithId_None [of "id' c" old] by (cases "lastWithId (id' c) old") auto
    then have "buildExistingCards old (id' c) = Some p"
      by (simp add: buildExistingCards_lastWithId)
    then have "schedulingState (mergeCard (buildExistingCards old) c) = schedulingState p"
      by (rule schedulingState_mergeCard_Some)
    with p lastWithId_Some [OF p] show "\<exists>p. lastWithId (id' c) old = Some p \<and> p \<in> set old \<and>
        id' p = id' c \<and>
        schedulingState (mergeCard (buildExistingCards old) c) = schedulingState p"
      by blast
  qed
  show "distinct (map id' old) \<longrightarrow>
            (\<forall>p \<in> set old. id' p = id' c \<longrightarrow>
               schedulingState (mergeCard (buildExistingCards old) c) = schedulingState p)"
  proof (intro impI ballI)
    fix p
    assume d: "distinct (map id' old)" and p: "p \<in> set old" and e: "id' p = id' c"
    have "buildExistingCards old (id' c) = Some p"
      using lastWithId_distinct [OF d p] e by (simp add: buildExistingCards_lastWithId)
    then show "schedulingState (mergeCard (buildExistingCards old) c) = schedulingState p"
      by (rule schedulingState_mergeCard_Some)
  qed
  show "id' c \<notin> id' ` set old \<longrightarrow>
            schedulingState (mergeCard (buildExistingCards old) c) =
              (None, None, Some 2.5, Some 0, Some 0)"
  proof
    assume "id' c \<notin> id' ` set old"
    then have "buildExistingCards old (id' c) = None"
      by (simp add: buildExistingCards_lastWithId lastWithId_None)
    then have "schedulingState (mergeCard (buildExistingCards old) c) =
        (lastReviewed c, nextReview c, Some 2.5, Some 0, Some 0)"
      by (rule schedulingState_mergeCard_None)
    moreover have "schedulingState c = (None, None, None, None, None)"
      using parsed_card_shape [OF assms] by simp
    ultimately show "schedulingState (mergeCard (buildExistingCards old) c) =
        (None, None, Some 2.5, Some 0, Some 0)"
      by (simp add: schedulingState_def)
  qed
qed

text \<open>
  Claim C1, as amended. Every freshly parsed card is merged against the persisted list
  \<open>old\<close> as follows. If its id is the id of some persisted card, it receives the five
  scheduling fields of the last persisted card with that id, unchanged; when the ids of
  the persisted cards are pairwise distinct this is the one persisted card with that id.
  If its id is the id of no persisted card, it gets ease factor 2.5, interval 0 and review
  count 0, and \<open>lastReviewed\<close> and \<open>nextReview\<close> stay unset.
\<close>

theorem merge_scheduling_state:
  assumes "i < length (findAnkiCardsInContent content fileName)"
  shows "length (mergeCards (buildExistingCards old) (findAnkiCardsInContent content fileName)) =
           length (findAnkiCardsInContent content fileName) \<and>
         (id' (findAnkiCardsInContent content fileName ! i) \<in> id' ` set old \<longrightarrow>
            (\<exists>p. lastWithId (id' (findAnkiCardsInContent content fileName ! i)) old = Some p \<and>
                 p \<in> set old \<and> id' p = id' (findAnkiCardsInContent content fileName ! i) \<and>
                 schedulingState
                   (mergeCards (buildExistingCards old) (findAnkiCardsInContent content fileName) ! i) =
                 schedulingState p)) \<and>
         (distinct (map id' old) \<longrightarrow>
            (\<forall>p \<in> set old. id' p = id' (findAnkiCardsInContent content fileName ! i) \<longrightarrow>
               schedulingState
                 (mergeCards (buildExistingCards old) (findAnkiCardsInContent content fileName) ! i) =
               schedulingState p)) \<and>
         (id' (findAnkiCardsInContent content fileName ! i) \<notin> id' ` set old \<longrightarrow>
            schedulingState
              (mergeCards (buildExistingCards old) (findAnkiCardsInContent content fileName) ! i) =
            (None, None, Some 2.5, Some 0, Some 0))"
proof -
  have c: "findAnkiCardsInContent content fileName ! i \<in> set (findAnkiCardsInContent content fileName)"
    using assms by simp
  show ?thesis
    using merge_of_parsed [OF c, of old] assms
    by (simp add: length_mergeCards nth_mergeCards)
qed

theorem merge_scheduling_state_witness:
  "(0::nat) < length (findAnkiCardsInContent cardDoc (js ''Geo'')) \<and>
   id' (findAnkiCardsInContent cardDoc (js ''Geo'') ! 0) \<in> id' ` set [reviewedTwin] \<and>
   distinct (map id' [reviewedTwin]) \<and>
   schedulingState (mergeCards (buildExistingCards [reviewedTwin])
       (findAnkiCardsInContent cardDoc (js ''Geo'')) ! 0) = schedulingState reviewedTwin \<and>
   id' (findAnkiCardsInContent cardDoc (js ''Geo'') ! 0) \<notin> id' ` set [] \<and>
   schedulingState (mergeCards (buildExistingCards [])
       (findAnkiCardsInContent cardDoc (js ''Geo'')) ! 0) = (None, None, Some 2.5, Some 0, Some 0)"
  using merge_scheduling_state [of 0 cardDoc "js ''Geo''" "[reviewedTwin]"]
    merge_scheduling_state [of 0 cardDoc "js ''Geo''" "[]"]
  by (simp add: parse_cardDoc twin_ids)

text \<open>
  Claim C1 as stated fails when two persisted cards share an id: the parsed card has the
  id of the reviewed first card and does not receive its scheduling fields, but those of
  the card stored after it.
\<close>

theorem merge_duplicate_ids_counterexample:
  "reviewedTwin \<in> set [reviewedTwin, staleTwin] \<and>
   id' (findAnkiCardsInContent twinDoc (js ''Geo'') ! 0) = id' reviewedTwin \<and>
   schedulingState (mergeCards (buildExistingCards [reviewedTwin, staleTwin])
       (findAnkiCardsInContent twinDoc (js ''Geo'')) ! 0) \<noteq> schedulingState reviewedTwin"
  by (simp add: parse_twinDoc twin_ids mergeCards_def mergeCard_def buildExistingCards_def
      schedulingState_def staleTwin_def reviewedTwin_def)

text \<open>
  The store of that example arises from the plugin's own operations: index a file that
  holds the same card text twice, then review the first of the two cards.
\<close>

lemma twin_store_reachable:
  "indexAnkiCards (js ''t0'') [(js ''Geo'', Some twinDoc)] emptyPlugin =
     \<lparr>storedCards = Some \<lparr>timestamp = js ''t0'', totalCards = 2, cards = [staleTwin, staleTwin]\<rparr>,
      cardData = Some \<lparr>timestamp = js ''t0'', totalCards = 2, cards = [staleTwin, staleTwin]\<rparr>,
      saveCount = 1\<rparr> \<and>
   snd (updateCardAfterReview DEFAULT_SETTINGS 1000 staleTwin 2
          (indexAnkiCards (js ''t0'') [(js ''Geo'', Some twinDoc)] emptyPlugin)) =
     \<lparr>storedCards = Some \<lparr>timestamp = js ''t0'', totalCards = 2, cards = [reviewedTwin, staleTwin]\<rparr>,
      cardData = Some \<lparr>timestamp = js ''t0'', totalCards = 2, cards = [reviewedTwin, staleTwin]\<rparr>,
      saveCount = 2\<rparr>"
proof -
  have merged: "mergeCard Map.empty parsedTwin = staleTwin"
    by (simp add: mergeCard_def parsedTwin_def staleTwin_def)
  have indexed: "indexAnkiCards (js ''t0'') [(js ''Geo'', Some twinDoc)] emptyPlugin =
     \<lparr>storedCards = Some \<lparr>timestamp = js ''t0'', totalCards = 2, cards = [staleTwin, staleTwin]\<rparr>,
      cardData = Some \<lparr>timestamp = js ''t0'', totalCards = 2, cards = [staleTwin, staleTwin]\<rparr>,
      saveCount = 1\<rparr>"
    by (simp add: indexAnkiCards_def parse_twinDoc emptyPlugin_def loadCardData_def
        saveCardsToJson_def saveCardData_def mergeCards_def merged Let_def)
  show ?thesis
    unfolding indexed
    by (simp add: updateCardAfterReview_def loadCardData_def saveCardData_def review_staleTwin
        twin_ids Let_def)
qed

lemma fileLoop_parsedCards:
  "fileLoop existingCards files allCards = allCards @ mergeCards existingCards (parsedCards files)"
proof (induction files arbitrary: allCards)
  case Nil
  show ?case by (simp add: mergeCards_def)
next
  case (Cons f files)
  obtain basename r where f: "f = (basename, r)" by (cases f)
  show ?case
  proof (cases r)
    case None
    then show ?thesis using Cons.IH f by simp
  next
    case (Some content)
    then show ?thesis using Cons.IH f by (simp add: mergeCards_def Let_def)
  qed
qed

lemma mergeCards_Nil_iff: "mergeCards existingCards cs = [] \<longleftrightarrow> cs = []"
  by (simp add: mergeCards_def)

lemma id_mergeCards: "map id' (mergeCards existingCards cs) = map id' cs"
  by (simp add: mergeCards_def mergeCard_def split: option.splits)

text \<open>
  Claim C7, as amended. When the fresh parse yields at least one card, the indexing pass
  stores exactly the freshly parsed cards with merged scheduling state, and no card of the
  new store has the id of a previously stored card whose id is not among the freshly
  parsed ones. When the fresh parse yields no card at all, nothing is saved and the
  previous store stays as it was.
\<close>

theorem index_rebuilds_store:
  "(parsedCards files \<noteq> [] \<longrightarrow>
      storedCards (indexAnkiCards isoNow files plugin) =
        Some \<lparr>timestamp = isoNow, totalCards = length (parsedCards files),
              cards = mergeCards
                (case storedCards plugin of None \<Rightarrow> Map.empty
                 | Some d \<Rightarrow> buildExistingCards (cards d))
                (parsedCards files)\<rparr> \<and>
      (\<forall>d p. storedCards plugin = Some d \<and> p \<in> set (cards d) \<and>
             id' p \<notin> id' ` set (parsedCards files) \<longrightarrow>
             (\<forall>d'. storedCards (indexAnkiCards isoNow files plugin) = Some d' \<longrightarrow>
                   id' p \<notin> id' ` set (cards d')))) \<and>
   (parsedCards files = [] \<longrightarrow>
      storedCards (indexAnkiCards isoNow files plugin) = storedCards plugin \<and>
      saveCount (indexAnkiCards isoNow files plugin) = saveCount plugin)"
proof (intro conjI impI)
  assume ne: "parsedCards files \<noteq> []"
  let ?E = "case storedCards plugin of None \<Rightarrow> Map.empty | Some d \<Rightarrow> buildExistingCards (cards d)"
  show stored: "storedCards (indexAnkiCards isoNow files plugin) =
        Some \<lparr>timestamp = isoNow, totalCards = length (parsedCards files),
              cards = mergeCards ?E (parsedCards files)\<rparr>"
    using ne
    by (simp add: indexAnkiCards_def loadCardData_def fileLoop_parsedCards saveCardsToJson_def
        saveCardData_def Let_def length_mergeCards mergeCards_Nil_iff)
  show "\<forall>d p. storedCards plugin = Some d \<and> p \<in> set (cards d) \<and>
             id' p \<notin> id' ` set (parsedCards files) \<longrightarrow>
             (\<forall>d'. storedCards (indexAnkiCards isoNow files plugin) = Some d' \<longrightarrow>
                   id' p \<notin> id' ` set (cards d'))"
  proof (intro allI impI)
    fix d p d'
    assume a: "storedCards plugin = Some d \<and> p \<in> set (cards d) \<and>
             id' p \<notin> id' ` set (parsedCards files)"
      and b: "storedCards (indexAnkiCards isoNow files plugin) = Some d'"
    have "cards d' = mergeCards ?E (parsedCards files)"
      using stored b by auto
    then have "map id' (cards d') = map id' (parsedCards files)"
      by (simp add: id_mergeCards)
    then have "id' ` set (cards d') = id' ` set (parsedCards files)"
      by (metis set_map)
    with a show "id' p \<notin> id' ` set (cards d')" by simp
  qed
next
  assume e: "parsedCards files = []"
  then show "storedCards (indexAnkiCards isoNow files plugin) = storedCards plugin"
    by (simp add: indexAnkiCards_def loadCardData_def fileLoop_parsedCards mergeCards_def Let_def)
next
  assume e: "parsedCards files = []"
  then show "saveCount (indexAnkiCards isoNow files plugin) = saveCount plugin"
    by (simp add: indexAnkiCards_def loadCardData_def fileLoop_parsedCards mergeCards_def Let_def)
qed

lemma parse_no_cards: "findAnkiCardsInContent (js ''notes'') (js ''Geo'') = []"
  by (simp add: parser_eval)

lemma gone_id: "id' goneCard = js ''card_gone'' \<and> js ''card_gone'' \<noteq> js ''card_twbiid'' \<and>
  js ''card_twbiid'' \<noteq> js ''card_gone''"
  by (simp add: goneCard_def js_def)

lemma merge_gone_parsedTwin: "mergeCard (buildExistingCards [goneCard]) parsedTwin = staleTwin"
  using gone_id by (simp add: mergeCard_def buildExistingCards_def twin_ids)
    (simp add: parsedTwin_def staleTwin_def)

theorem index_rebuilds_store_witness:
  "parsedCards [(js ''Geo'', Some cardDoc)] \<noteq> [] \<and>
   storedCards (pluginWith [goneCard]) =
     Some \<lparr>timestamp = js ''t0'', totalCards = 1, cards = [goneCard]\<rparr> \<and>
   goneCard \<in> set [goneCard] \<and>
   id' goneCard \<notin> id' ` set (parsedCards [(js ''Geo'', Some cardDoc)]) \<and>
   storedCards (indexAnkiCards (js ''t1'') [(js ''Geo'', Some cardDoc)] (pluginWith [goneCard])) =
     Some \<lparr>timestamp = js ''t1'', totalCards = 1, cards = [staleTwin]\<rparr> \<and>
   id' goneCard \<notin> id' ` set [staleTwin] \<and>
   parsedCards [(js ''Geo'', None)] = [] \<and>
   storedCards (indexAnkiCards (js ''t1'') [(js ''Geo'', None)] (pluginWith [goneCard])) =
     storedCards (pluginWith [goneCard])"
  using index_rebuilds_store [of "[(js ''Geo'', Some cardDoc)]" "js ''t1''" "pluginWith [goneCard]"]
    index_rebuilds_store [of "[(js ''Geo'', None)]" "js ''t1''" "pluginWith [goneCard]"]
  using gone_id
  by (simp add: parse_cardDoc pluginWith_def twin_ids mergeCards_def merge_gone_parsedTwin)

text \<open>
  Claim C7 as stated includes the pass whose parse yields no card. There the stored card,
  whose id is not among the (no) freshly parsed cards, is still in the store afterwards.
\<close>

theorem index_keeps_store_counterexample:
  "parsedCards [(js ''Geo'', Some (js ''notes''))] = [] \<and>
   storedCards (pluginWith [goneCard]) =
     Some \<lparr>timestamp = js ''t0'', totalCards = 1, cards = [goneCard]\<rparr> \<and>
   id' goneCard \<notin> id' ` set (parsedCards [(js ''Geo'', Some (js ''notes''))]) \<and>
   storedCards (indexAnkiCards (js ''t1'') [(js ''Geo'', Some (js ''notes''))] (pluginWith [goneCard])) =
     Some \<lparr>timestamp = js ''t0'', totalCards = 1, cards = [goneCard]\<rparr>"
  by (simp add: parse_no_cards pluginWith_def indexAnkiCards_def loadCardData_def Let_def)

section \<open>Properties of the write-back\<close>

lemma findIndex_None: "findIndex p xs = None \<longleftrightarrow> (\<forall>x \<in> set xs. \<not> p x)"
  by (induction xs) auto

lemma findIndex_Some:
  "findIndex p xs = Some i \<Longrightarrow> i < length xs \<and> p (xs ! i) \<and> (\<forall>j < i. \<not> p (xs ! j))"
proof (induction xs arbitrary: i)
  case Nil
  then show ?case by simp
next
  case (Cons x xs)
  show ?case
  proof (cases "p x")
    case True
    with Cons.prems show ?thesis by simp
  next
    case False
    with Cons.prems obtain k where k: "findIndex p xs = Some k" and i: "i = Suc k"
      by auto
    have "k < length xs \<and> p (xs ! k) \<and> (\<forall>j < k. \<not> p (xs ! j))"
      using Cons.IH [OF k] .
    with False i show ?thesis
      by (auto simp: nth_Cons split: nat.splits)
  qed
qed

lemma id_calculateNextReview: "id' (calculateNextReview settings now c r) = id' c"
  by (simp add: calculateNextReview_def Let_def)

text \<open>
  Claim C10. \<open>updateCardAfterReview\<close> with a card whose id matches no card of the loaded
  store, or with no store at all, performs no save and leaves the persisted store as it
  was. A save happens only when a stored card has the id; then the first stored card with
  that id is replaced by the reviewed card, every other entry, the time stamp and the
  count staying as they were, and exactly one save is performed.
\<close>

theorem update_writes_back:
  "(storedCards plugin = None \<longrightarrow>
      storedCards (snd (updateCardAfterReview settings now c r plugin)) = None \<and>
      saveCount (snd (updateCardAfterReview settings now c r plugin)) = saveCount plugin) \<and>
   (\<forall>d. storedCards plugin = Some d \<and> id' c \<notin> id' ` set (cards d) \<longrightarrow>
      storedCards (snd (updateCardAfterReview settings now c r plugin)) = Some d \<and>
      saveCount (snd (updateCardAfterReview settings now c r plugin)) = saveCount plugin) \<and>
   (\<forall>d. storedCards plugin = Some d \<and> id' c \<in> id' ` set (cards d) \<longrightarrow>
      (\<exists>i < length (cards d).
         id' (cards d ! i) = id' c \<and> (\<forall>j < i. id' (cards d ! j) \<noteq> id' c) \<and>
         storedCards (snd (updateCardAfterReview settings now c r plugin)) =
           Some (d\<lparr>cards := (cards d)[i := calculateNextReview settings now c r]\<rparr>) \<and>
         saveCount (snd (updateCardAfterReview settings now c r plugin)) = saveCount plugin + 1)) \<and>
   (saveCount (snd (updateCardAfterReview settings now c r plugin)) \<noteq> saveCount plugin \<longrightarrow>
      (\<exists>d. storedCards plugin = Some d \<and> id' c \<in> id' ` set (cards d)))"
proof -
  let ?c1 = "calculateNextReview settings now c r"
  let ?out = "snd (updateCardAfterReview settings now c r plugin)"
  have none: "storedCards ?out = None \<and> saveCount ?out = saveCount plugin"
    if "storedCards plugin = None"
    using that by (simp add: updateCardAfterReview_def loadCardData_def Let_def)
  have missing: "storedCards ?out = Some d \<and> saveCount ?out = saveCount plugin"
    if "storedCards plugin = Some d" and "id' c \<notin> id' ` set (cards d)" for d
  proof -
    have "\<forall>x \<in> set (cards d). id' x \<noteq> id' c"
      using that(2) by (metis imageI)
    then have "findIndex (\<lambda>x. id' x = id' ?c1) (cards d) = None"
      by (simp add: findIndex_None id_calculateNextReview)
    then show ?thesis
      using that(1) by (simp add: updateCardAfterReview_def loadCardData_def Let_def)
  qed
  have found: "\<exists>i < length (cards d).
         id' (cards d ! i) = id' c \<and> (\<forall>j < i. id' (cards d ! j) \<noteq> id' c) \<and>
         storedCards ?out = Some (d\<lparr>cards := (cards d)[i := ?c1]\<rparr>) \<and>
         saveCount ?out = saveCount plugin + 1"
    if "storedCards plugin = Some d" and "id' c \<in> id' ` set (cards d)" for d
  proof -
    have "findIndex (\<lambda>x. id' x = id' ?c1) (cards d) \<noteq> None"
      using that(2) by (auto simp: findIndex_None id_calculateNextReview)
    then obtain i where i: "findIndex (\<lambda>x. id' x = id' ?c1) (cards d) = Some i"
      by auto
    have "storedCards ?out = Some (d\<lparr>cards := (cards d)[i := ?c1]\<rparr>) \<and>
          saveCount ?out = saveCount plugin + 1"
      using that(1) i
      by (simp add: updateCardAfterReview_def loadCardData_def saveCardData_def Let_def)
    with findIndex_Some [OF i] show ?thesis
      by (auto simp: id_calculateNextReview)
  qed
  have only: "\<exists>d. storedCards plugin = Some d \<and> id' c \<in> id' ` set (cards d)"
    if "saveCount ?out \<noteq> saveCount plugin"
  proof (cases "storedCards plugin")
    case None
    with none that show ?thesis by simp
  next
    case (Some d)
    with missing [OF Some] that show ?thesis by auto
  qed
  from none missing found only show ?thesis by blast
qed

theorem update_writes_back_witness:
  "storedCards (pluginWith [goneCard, staleTwin]) =
     Some \<lparr>timestamp = js ''t0'', totalCards = 2, cards = [goneCard, staleTwin]\<rparr> \<and>
   id' staleTwin \<in> id' ` set [goneCard, staleTwin] \<and>
   storedCards (snd (updateCardAfterReview DEFAULT_SETTINGS 1000 staleTwin 2
                       (pluginWith [goneCard, staleTwin]))) =
     Some \<lparr>timestamp = js ''t0'', totalCards = 2, cards = [goneCard, reviewedTwin]\<rparr> \<and>
   storedCards (pluginWith [goneCard]) =
     Some \<lparr>timestamp = js ''t0'', totalCards = 1, cards = [goneCard]\<rparr> \<and>
   id' staleTwin \<notin> id' ` set [goneCard] \<and>
   storedCards (snd (updateCardAfterReview DEFAULT_SETTINGS 1000 staleTwin 2
                       (pluginWith [goneCard]))) =
     Some \<lparr>timestamp = js ''t0'', totalCards = 1, cards = [goneCard]\<rparr> \<and>
   saveCount (snd (updateCardAfterReview DEFAULT_SETTINGS 1000 staleTwin 2
                       (pluginWith [goneCard]))) = saveCount (pluginWith [goneCard]) \<and>
   storedCards emptyPlugin = None \<and>
   storedCards (snd (updateCardAfterReview DEFAULT_SETTINGS 1000 staleTwin 2 emptyPlugin)) = None"
  using update_writes_back [of "pluginWith [goneCard, staleTwin]" DEFAULT_SETTINGS 1000 staleTwin 2]
    update_writes_back [of "pluginWith [goneCard]" DEFAULT_SETTINGS 1000 staleTwin 2]
    update_writes_back [of emptyPlugin DEFAULT_SETTINGS 1000 staleTwin 2]
  using gone_id
  by (simp add: pluginWith_def emptyPlugin_def updateCardAfterReview_def loadCardData_def
      saveCardData_def review_staleTwin twin_ids Let_def)

section \<open>Properties of the review selector\<close>

lemma mset_take_subset: "mset (take n xs) \<subseteq># mset xs"
proof -
  have "mset xs = mset (take n xs) + mset (drop n xs)"
    by (metis append_take_drop_id mset_append)
  then show ?thesis by simp
qed

lemma getRandomSubset_properties:
  assumes "mset (sortRandomly pool) = mset pool"
  shows "length (getRandomSubset sortRandomly pool (min k (length pool))) = min k (length pool)"
    and "mset (getRandomSubset sortRandomly pool (min k (length pool))) \<subseteq># mset pool"
    and "distinct pool \<Longrightarrow> distinct (getRandomSubset sortRandomly pool (min k (length pool)))"
proof -
  have len: "length (sortRandomly pool) = length pool"
    using assms by (rule mset_eq_length)
  then show "length (getRandomSubset sortRandomly pool (min k (length pool))) = min k (length pool)"
    by (simp add: getRandomSubset_def)
  have "mset (take (min k (length pool)) (sortRandomly pool)) \<subseteq># mset (sortRandomly pool)"
    by (rule mset_take_subset)
  then show "mset (getRandomSubset sortRandomly pool (min k (length pool))) \<subseteq># mset pool"
    using assms by (simp add: getRandomSubset_def)
  show "distinct (getRandomSubset sortRandomly pool (min k (length pool)))" if "distinct pool"
  proof -
    have "distinct (sortRandomly pool)"
      using that assms by (metis mset_eq_imp_distinct_iff)
    then show ?thesis by (simp add: getRandomSubset_def)
  qed
qed

lemma dueCards_cases:
  "dueCards settings now cs =
     (if \<exists>c \<in> set cs. isDue now c then take (reviewsPerDay settings) (filter (isDue now) cs)
      else take (newCardsPerDay settings) (filter neverReviewed cs))"
  by (auto simp: dueCards_def Let_def filter_empty_conv)

lemma dueCards_Nil: "dueCards settings now [] = []"
  by (simp add: dueCards_def)

lemma reviewCards_outcome:
  "fst (reviewCards sortRandomly settings now plugin) =
     (if storedCardList plugin = [] then NoIndexedCards
      else if dueCards settings now (storedCardList plugin) = [] then NoCardsModal
      else CardReviewModal
             (getRandomSubset sortRandomly (dueCards settings now (storedCardList plugin))
                (min (cardsPerSession settings)
                   (length (dueCards settings now (storedCardList plugin))))))"
  by (cases "storedCards plugin")
    (simp_all add: reviewCards_def loadCardData_def storedCardList_def Let_def)

text \<open>
  Claim C8. For every persisted card list, time and settings, and every rearrangement
  that the random sort produces of the pool, the cards that the selector presents are
  exactly \<open>min(cardsPerSession, pool.length)\<close> in number and are drawn from the pool without
  taking any entry twice, so that they are pairwise distinct when the stored cards are.
  With a non-empty pool they are shown in the review modal; with an empty pool there are
  none, and the selector ends with the no-cards modal (or, with an empty store, with the
  notice). The pool is the due cards truncated to \<open>reviewsPerDay\<close> if some card is due, and
  the never-reviewed cards truncated to \<open>newCardsPerDay\<close> otherwise. With no card due, five
  never-reviewed cards, \<open>newCardsPerDay = 10\<close> and \<open>cardsPerSession = 3\<close>, exactly three cards
  are presented, drawn from the five.
\<close>

theorem review_selection:
  assumes "mset (sortRandomly (dueCards settings now (storedCardList plugin))) =
           mset (dueCards settings now (storedCardList plugin))"
  shows "length (presentedCards (fst (reviewCards sortRandomly settings now plugin))) =
           min (cardsPerSession settings) (length (dueCards settings now (storedCardList plugin))) \<and>
         mset (presentedCards (fst (reviewCards sortRandomly settings now plugin))) \<subseteq>#
           mset (dueCards settings now (storedCardList plugin)) \<and>
         (distinct (storedCardList plugin) \<longrightarrow>
            distinct (presentedCards (fst (reviewCards sortRandomly settings now plugin)))) \<and>
         (dueCards settings now (storedCardList plugin) \<noteq> [] \<longrightarrow>
            fst (reviewCards sortRandomly settings now plugin) =
              CardReviewModal (presentedCards (fst (reviewCards sortRandomly settings now plugin)))) \<and>
         (dueCards settings now (storedCardList plugin) = [] \<longrightarrow>
            fst (reviewCards sortRandomly settings now plugin) =
              (if storedCardList plugin = [] then NoIndexedCards else NoCardsModal)) \<and>
         dueCards settings now (storedCardList plugin) =
           (if \<exists>c \<in> set (storedCardList plugin). isDue now c
            then take (reviewsPerDay settings) (filter (isDue now) (storedCardList plugin))
            else take (newCardsPerDay settings) (filter neverReviewed (storedCardList plugin))) \<and>
         ((\<forall>c \<in> set (storedCardList plugin). \<not> isDue now c) \<and>
          length (filter neverReviewed (storedCardList plugin)) = 5 \<and>
          newCardsPerDay settings = 10 \<and> cardsPerSession settings = 3 \<longrightarrow>
            length (presentedCards (fst (reviewCards sortRandomly settings now plugin))) = 3 \<and>
            mset (presentedCards (fst (reviewCards sortRandomly settings now plugin))) \<subseteq>#
              mset (filter neverReviewed (storedCardList plugin)))"
proof -
  let ?cards = "storedCardList plugin"
  let ?pool = "dueCards settings now ?cards"
  let ?out = "fst (reviewCards sortRandomly settings now plugin)"
  let ?chosen = "getRandomSubset sortRandomly ?pool (min (cardsPerSession settings) (length ?pool))"
  note props = getRandomSubset_properties [of sortRandomly ?pool "cardsPerSession settings",
      OF assms]
  have empty_pool: "?pool = []" if "?cards = []"
    using that by (simp add: dueCards_Nil)
  have presented: "presentedCards ?out = (if ?pool = [] then [] else ?chosen)"
    using empty_pool by (simp add: reviewCards_outcome)
  have len: "length (presentedCards ?out) = min (cardsPerSession settings) (length ?pool)"
    using props(1) by (simp add: presented)
  have sub: "mset (presentedCards ?out) \<subseteq># mset ?pool"
    using props(2) by (simp add: presented)
  have dist: "distinct ?cards \<longrightarrow> distinct (presentedCards ?out)"
  proof
    assume "distinct ?cards"
    then have "distinct ?pool"
      by (simp add: dueCards_def Let_def)
    then show "distinct (presentedCards ?out)"
      using props(3) by (simp add: presented)
  qed
  have modal: "?pool \<noteq> [] \<longrightarrow> ?out = CardReviewModal (presentedCards ?out)"
    using empty_pool by (auto simp: reviewCards_outcome)
  have none: "?pool = [] \<longrightarrow> ?out = (if ?cards = [] then NoIndexedCards else NoCardsModal)"
    by (simp add: reviewCards_outcome)
  have pool: "?pool =
           (if \<exists>c \<in> set ?cards. isDue now c
            then take (reviewsPerDay settings) (filter (isDue now) ?cards)
            else take (newCardsPerDay settings) (filter neverReviewed ?cards))"
    by (rule dueCards_cases)
  have example: "length (presentedCards ?out) = 3 \<and>
            mset (presentedCards ?out) \<subseteq># mset (filter neverReviewed ?cards)"
    if ex: "(\<forall>c \<in> set ?cards. \<not> isDue now c) \<and> length (filter neverReviewed ?cards) = 5 \<and>
          newCardsPerDay settings = 10 \<and> cardsPerSession settings = 3"
  proof -
    have "?pool = filter neverReviewed ?cards"
      using ex by (simp add: dueCards_cases)
    with len sub ex show ?thesis by simp
  qed
  from len sub dist modal none pool example show ?thesis by blast
qed

text \<open>
  The tests \<open>!card.nextReview\<close> and \<open>!card.lastReviewed\<close> also hold for a time stamp 0.
  For a time that is not negative and time stamps other than 0, a card is due when
  \<open>nextReview\<close> is unset or at most \<open>now\<close>, and never reviewed when \<open>lastReviewed\<close> is
  unset.
\<close>

lemma isDue_plain:
  "0 \<le> now \<Longrightarrow> isDue now c \<longleftrightarrow> (case nextReview c of None \<Rightarrow> True | Some t \<Rightarrow> t \<le> now)"
  by (auto simp: isDue_def split: option.splits)

lemma neverReviewed_plain:
  "lastReviewed c \<noteq> Some 0 \<Longrightarrow> neverReviewed c \<longleftrightarrow> lastReviewed c = None"
  by (cases "lastReviewed c") (simp_all add: neverReviewed_def)

lemma fiveNewCards_pool:
  "dueCards sessionOfThree 1000 fiveNewCards = fiveNewCards \<and>
   filter (isDue 1000) fiveNewCards = [] \<and> filter neverReviewed fiveNewCards = fiveNewCards"
  by (simp add: dueCards_def fiveNewCards_def futureCard_def isDue_def neverReviewed_def
      sessionOfThree_def DEFAULT_SETTINGS_def)

lemma fiveNewCards_distinct: "distinct fiveNewCards \<and> length fiveNewCards = 5"
  by (simp add: fiveNewCards_def futureCard_def)

lemma fiveNewCards_stored: "storedCardList (pluginWith fiveNewCards) = fiveNewCards"
  by (simp add: storedCardList_def pluginWith_def)

text \<open>
  The example of the claim, with the sort reversing the pool: the last three of the five
  cards are presented.
\<close>

theorem review_selection_witness:
  "mset (rev (dueCards sessionOfThree 1000 (storedCardList (pluginWith fiveNewCards)))) =
     mset (dueCards sessionOfThree 1000 (storedCardList (pluginWith fiveNewCards))) \<and>
   filter (isDue 1000) (storedCardList (pluginWith fiveNewCards)) = [] \<and>
   length (filter neverReviewed (storedCardList (pluginWith fiveNewCards))) = 5 \<and>
   newCardsPerDay sessionOfThree = 10 \<and> cardsPerSession sessionOfThree = 3 \<and>
   distinct (storedCardList (pluginWith fiveNewCards)) \<and>
   fst (reviewCards rev sessionOfThree 1000 (pluginWith fiveNewCards)) =
     CardReviewModal [futureCard 5, futureCard 4, futureCard 3] \<and>
   length (presentedCards (fst (reviewCards rev sessionOfThree 1000 (pluginWith fiveNewCards)))) = 3"
proof -
  have perm: "mset (rev (dueCards sessionOfThree 1000 (storedCardList (pluginWith fiveNewCards)))) =
     mset (dueCards sessionOfThree 1000 (storedCardList (pluginWith fiveNewCards)))"
    by simp
  have settings: "newCardsPerDay sessionOfThree = 10 \<and> cardsPerSession sessionOfThree = 3"
    by (simp add: sessionOfThree_def)
  have chosen: "fst (reviewCards rev sessionOfThree 1000 (pluginWith fiveNewCards)) =
      CardReviewModal [futureCard 5, futureCard 4, futureCard 3]"
    using fiveNewCards_pool fiveNewCards_distinct settings
    by (simp add: reviewCards_outcome fiveNewCards_stored getRandomSubset_def)
      (simp add: fiveNewCards_def)
  from review_selection [of rev sessionOfThree 1000 "pluginWith fiveNewCards", OF perm]
    fiveNewCards_pool fiveNewCards_distinct settings chosen
  show ?thesis by (simp add: fiveNewCards_stored filter_empty_conv)
qed

end
